theory Spec2Isabelle
  imports Main "HOL-Library.Log_Nat" "HOL-Library.Sublist"
    "HOL-Library.Char_ord" "HOL-Library.List_Lexorder"
begin

section \<open>Errors and files\<close>

text \<open>
  The exceptions of the Python program are values. \<open>ValueError\<close> carries its
  message; \<open>LibraryError\<close> stands for an exception raised inside one of the
  libraries the program calls (Pillow, OpenCV, pdf2image, PyPDF2, the storage client).
\<close>

datatype py_error =
    ValueError string
  | ZeroDivisionError
  | AttributeError
  | IndexError
  | LibraryError string

type_synonym bytes = "nat list"

section \<open>The horizontal tiler (\<open>split_image_horizontally\<close>)\<close>

text \<open>
  The array \<open>cv2.imread\<close> returns is a list of pixel rows, top row first;
  \<open>img.shape[0]\<close> is its length. \<open>img[y1:y2, :]\<close> keeps whole rows, so a
  tile is a list of rows too.
\<close>

type_synonym 'p raster = "'p list list"

definition clip_index :: "int \<Rightarrow> nat \<Rightarrow> nat" where
  \<comment> \<open>a slice bound of Python: negative bounds count from the end, all are clipped\<close>
  "clip_index i n = (if i < 0 then nat (max (i + int n) 0) else min (nat i) n)"

definition py_slice :: "int \<Rightarrow> int \<Rightarrow> 'a list \<Rightarrow> 'a list" where
  "py_slice y1 y2 xs =
     (let a = clip_index y1 (length xs); b = clip_index y2 (length xs)
      in take (b - a) (drop a xs))"

definition tile_bounds :: "int \<Rightarrow> int \<Rightarrow> int \<Rightarrow> int \<Rightarrow> int \<times> int" where
  \<comment> \<open>\<open>y1\<close> and \<open>y2\<close> of the loop body, for the loop index \<open>i\<close>\<close>
  "tile_bounds h parts tile_height i =
     (i * tile_height, if i = parts - 1 then h else (i + 1) * tile_height)"

definition split_image_horizontally :: "'p raster \<Rightarrow> int \<Rightarrow> py_error + 'p raster list" where
  "split_image_horizontally img parts =
     (let h = int (length img) in
      if parts = 0 then Inl ZeroDivisionError
      else
        let tile_height = h div parts in
        Inr (map (\<lambda>i. case tile_bounds h parts tile_height i of
                          (y1, y2) \<Rightarrow> py_slice y1 y2 img)
                 [0 .. parts - 1]))"

definition rows_between :: "'p raster \<Rightarrow> nat \<Rightarrow> nat \<Rightarrow> 'p raster" where
  \<comment> \<open>the rows \<open>a, a + 1, ..., b - 1\<close> of a raster\<close>
  "rows_between img a b = map (\<lambda>y. img ! y) [a ..< b]"

definition has_width :: "nat \<Rightarrow> 'p raster \<Rightarrow> bool" where
  "has_width w img = list_all (\<lambda>row. length row = w) img"

section \<open>Double-precision arithmetic\<close>

text \<open>
  Python's \<open>float\<close> is the IEEE 754 double. A double is kept here as an integer
  mantissa and a binary exponent, with the value \<open>mant * 2 ^ expo\<close>; the same value
  may have several representations, and all comparisons go through \<open>f_less\<close>. Every
  operation computes the exact result and rounds it to 53 significant bits, to nearest
  with ties to even. The exponent is not bounded: the numbers of this program (pixel
  counts, factors between 0 and 1) are far from overflow and from the subnormal range.
\<close>

record float64 =
  mant :: int
  expo :: int

definition round_to_53 :: "int \<Rightarrow> int \<Rightarrow> float64" where
  "round_to_53 m e =
     (let a = \<bar>m\<bar>; b = bitlen a in
      if b \<le> 53 then \<lparr>mant = m, expo = e\<rparr>
      else
        let k = nat (b - 53);
            q = a div 2 ^ k;
            r = a mod 2 ^ k;
            half = 2 ^ (k - 1);
            q' = (if half < r \<or> (r = half \<and> odd q) then q + 1 else q)
        in \<lparr>mant = sgn m * q', expo = e + int k\<rparr>)"

definition f_of_int :: "int \<Rightarrow> float64" where
  "f_of_int n = round_to_53 n 0"

definition f_sub :: "float64 \<Rightarrow> float64 \<Rightarrow> float64" where
  "f_sub x y =
     (let e = min (expo x) (expo y)
      in round_to_53 (mant x * 2 ^ nat (expo x - e) - mant y * 2 ^ nat (expo y - e)) e)"

definition f_mul :: "float64 \<Rightarrow> float64 \<Rightarrow> float64" where
  "f_mul x y = round_to_53 (mant x * mant y) (expo x + expo y)"

definition f_div :: "float64 \<Rightarrow> float64 \<Rightarrow> py_error + float64" where
  \<comment> \<open>the quotient to 55 bits or more, with a sticky bit for the remainder, then rounded\<close>
  "f_div x y =
     (if mant y = 0 then Inl ZeroDivisionError
      else
        let a = \<bar>mant x\<bar>; b = \<bar>mant y\<bar>;
            k = nat (max 0 (55 + bitlen b - bitlen a));
            q = (a * 2 ^ k) div b;
            sticky = (if (a * 2 ^ k) mod b = 0 then 0 else 1)
        in Inr (round_to_53 (sgn (mant x) * sgn (mant y) * (2 * q + sticky))
                            (expo x - expo y - int k - 1)))"

definition int_truediv :: "int \<Rightarrow> int \<Rightarrow> py_error + float64" where
  \<comment> \<open>\<open>a / b\<close> on two Python ints: the correctly rounded quotient\<close>
  "int_truediv a b = f_div \<lparr>mant = a, expo = 0\<rparr> \<lparr>mant = b, expo = 0\<rparr>"

definition f_less :: "float64 \<Rightarrow> float64 \<Rightarrow> bool" where
  "f_less x y =
     (let e = min (expo x) (expo y)
      in mant x * 2 ^ nat (expo x - e) < mant y * 2 ^ nat (expo y - e))"

definition f_trunc :: "float64 \<Rightarrow> int" where
  \<comment> \<open>\<open>int(x)\<close>: the fraction is dropped, towards zero\<close>
  "f_trunc x =
     (if 0 \<le> expo x then mant x * 2 ^ nat (expo x)
      else sgn (mant x) * (\<bar>mant x\<bar> div 2 ^ nat (- expo x)))"

definition f_value :: "float64 \<Rightarrow> rat" where
  "f_value x = of_int (mant x) * 2 powi expo x"

definition f_one :: float64 where
  "f_one = \<lparr>mant = 1, expo = 0\<rparr>"

definition f_half :: float64 where
  "f_half = \<lparr>mant = 1, expo = - 1\<rparr>"

definition f_0_05 :: float64 where
  \<comment> \<open>the literal \<open>0.05\<close>: \<open>0x1.999999999999ap-5\<close>, the double nearest to 1/20\<close>
  "f_0_05 = \<lparr>mant = 7205759403792794, expo = - 57\<rparr>"

definition f_twenty :: float64 where
  "f_twenty = \<lparr>mant = 20, expo = 0\<rparr>"

section \<open>Images and the libraries around them\<close>

text \<open>
  A value of an EXIF tag: \<open>ExifInt v\<close> is a value that \<open>==\<close> finds equal to the
  integer \<open>v\<close>, \<open>ExifOther\<close> is any other value.
\<close>

datatype exif_value = ExifInt int | ExifOther

record 'px image =
  width :: int
  height :: int
  mode :: string
  getexif :: "py_error + (nat \<times> exif_value) list option"
  pixels :: 'px

text \<open>
  \<open>getexif\<close> is what \<open>img._getexif()\<close> does: it raises, returns \<open>None\<close> or
  returns the dictionary of the EXIF tags (an association list).

  The operations of Pillow, OpenCV, pdf2image, PyPDF2 and the C library are not code of
  this repository; they are the fields of an environment. What decodes or encodes a file
  may raise; what works on pixels in memory is a function.
\<close>

record ('px, 'c) env =
  image_open :: "bytes \<Rightarrow> py_error + 'px image"
  px_rotate :: "nat \<Rightarrow> 'px \<Rightarrow> 'px"
  px_convert_rgb :: "'px \<Rightarrow> 'px"
  px_lanczos :: "int \<Rightarrow> int \<Rightarrow> 'px \<Rightarrow> 'px"
  jpeg_save :: "'px image \<Rightarrow> (nat \<times> int) option \<Rightarrow> py_error + bytes"
  float_pow_half :: "float64 \<Rightarrow> float64"
  convert_from_path :: "bytes \<Rightarrow> nat \<Rightarrow> py_error + 'px image list"
  cv2_imread :: "bytes \<Rightarrow> 'c raster option"
  tile_page :: "'c raster \<Rightarrow> py_error + bytes"
  pdf_write :: "bytes list \<Rightarrow> bytes"

text \<open>
  \<open>jpeg_save img (Some (dpi, quality))\<close> is
  \<open>img.save(path, format="JPEG", dpi=(dpi, dpi), quality=quality, optimize=True)\<close> and
  \<open>jpeg_save img None\<close> is \<open>img.save(path, 'JPEG')\<close>; the result is the file written.
  \<open>float_pow_half x\<close> is \<open>x ** 0.5\<close>. \<open>convert_from_path data dpi\<close> renders page 1.
  \<open>tile_page\<close> is the body of the loop of \<open>tiles_to_pdf\<close>: one tile to a one-page PDF.
\<close>

definition TARGET_DPI :: nat where
  "TARGET_DPI = 80"

definition MAX_FILE_SIZE :: nat where
  "MAX_FILE_SIZE = 31457280"

definition orientation_tag :: nat where
  \<comment> \<open>the key of \<open>ExifTags.TAGS\<close> whose name is \<open>'Orientation'\<close>\<close>
  "orientation_tag = 274"

definition rotate :: "('px, 'c) env \<Rightarrow> nat \<Rightarrow> 'px image \<Rightarrow> 'px image" where
  \<comment> \<open>\<open>img.rotate(angle, expand=True)\<close> for a multiple of 90 degrees\<close>
  "rotate E angle img =
     img\<lparr>width := (if angle = 180 then width img else height img),
         height := (if angle = 180 then height img else width img),
         pixels := px_rotate E angle (pixels img)\<rparr>"

definition resize :: "('px, 'c) env \<Rightarrow> int \<times> int \<Rightarrow> 'px image \<Rightarrow> 'px image" where
  \<comment> \<open>\<open>img.resize((w, h), Resampling.LANCZOS)\<close>\<close>
  "resize E dims img =
     img\<lparr>width := fst dims, height := snd dims,
         pixels := px_lanczos E (fst dims) (snd dims) (pixels img)\<rparr>"

definition convert_rgb :: "('px, 'c) env \<Rightarrow> 'px image \<Rightarrow> 'px image" where
  "convert_rgb E img = img\<lparr>mode := ''RGB'', pixels := px_convert_rgb E (pixels img)\<rparr>"

section \<open>The orientation normalizer (\<open>correct_image_orientation\<close>)\<close>

definition orientation_try :: "('px, 'c) env \<Rightarrow> 'px image \<Rightarrow> py_error + 'px image" where
  \<comment> \<open>the body of the \<open>try\<close>\<close>
  "orientation_try E img =
     (case getexif img of
        Inl e \<Rightarrow> Inl e
      | Inr exif \<Rightarrow>
          (case exif of
             None \<Rightarrow> Inr img
           | Some d \<Rightarrow>
               if d = [] then Inr img
               else
                 let orientation_value = map_of d orientation_tag in
                 if orientation_value = Some (ExifInt 3) then Inr (rotate E 180 img)
                 else if orientation_value = Some (ExifInt 6) then Inr (rotate E 270 img)
                 else if orientation_value = Some (ExifInt 8) then Inr (rotate E 90 img)
                 else Inr img))"

definition correct_image_orientation :: "('px, 'c) env \<Rightarrow> 'px image \<Rightarrow> 'px image" where
  "correct_image_orientation E img =
     (case orientation_try E img of
        Inl e \<Rightarrow> img
      | Inr img' \<Rightarrow> img')"

text \<open>
  The orientation the metadata states, in the words of the specification: the value of
  the orientation tag when the metadata can be read, is present and holds a number;
  nothing when the metadata is absent or malformed.
\<close>

definition exif_orientation :: "'px image \<Rightarrow> int option" where
  "exif_orientation img =
     (case getexif img of
        Inl e \<Rightarrow> None
      | Inr None \<Rightarrow> None
      | Inr (Some d) \<Rightarrow>
          (case map_of d orientation_tag of
             None \<Rightarrow> None
           | Some ExifOther \<Rightarrow> None
           | Some (ExifInt v) \<Rightarrow> Some v))"

section \<open>The adaptive compressor (\<open>compress_image_adaptively\<close>)\<close>

definition scaled :: "int \<Rightarrow> float64 \<Rightarrow> int" where
  \<comment> \<open>\<open>int(n * factor)\<close> for an int \<open>n\<close> and a float \<open>factor\<close>\<close>
  "scaled n factor = f_trunc (f_mul (f_of_int n) factor)"

definition pre_downscale :: "('px, 'c) env \<Rightarrow> nat \<Rightarrow> 'px image \<Rightarrow> py_error + 'px image" where
  \<comment> \<open>lines 56 to 61\<close>
  "pre_downscale E original_size img =
     (case int_truediv (width img * height img) 1000000 of
        Inl e \<Rightarrow> Inl e
      | Inr current_megapixels \<Rightarrow>
          if MAX_FILE_SIZE < original_size \<and> f_less f_twenty current_megapixels then
            (case f_div f_twenty current_megapixels of
               Inl e \<Rightarrow> Inl e
             | Inr ratio \<Rightarrow>
                 let downscale_factor = float_pow_half E ratio;
                     new_width = scaled (width img) downscale_factor;
                     new_height = scaled (height img) downscale_factor
                 in Inr (resize E (new_width, new_height) img))
          else Inr img)"

definition encode_candidate ::
  "('px, 'c) env \<Rightarrow> 'px image \<Rightarrow> int \<Rightarrow> float64 \<Rightarrow> py_error + bytes" where
  \<comment> \<open>lines 72 and 73: the resized image, saved as a JPEG at the current quality\<close>
  "encode_candidate E img quality resize_factor =
     jpeg_save E
       (resize E (scaled (width img) resize_factor, scaled (height img) resize_factor) img)
       (Some (TARGET_DPI, quality))"

definition adjust :: "int \<Rightarrow> float64 \<Rightarrow> (int \<times> float64) option" where
  \<comment> \<open>lines 76 to 81, with \<open>min_quality = 90\<close> and \<open>min_resize = 0.5\<close>;
      \<open>None\<close> is the \<open>raise\<close>\<close>
  "adjust quality resize_factor =
     (if 90 < quality then Some (quality - 5, resize_factor)
      else if f_less f_half resize_factor then Some (quality, f_sub resize_factor f_0_05)
      else None)"

definition budget_unreachable :: py_error where
  "budget_unreachable = ValueError ''No se pudo reducir el archivo sin comprometer la calidad.''"

text \<open>
  The \<open>while True\<close> loop. Nothing in its form bounds it, so it is a partial function:
  \<open>None\<close> is a run that never ends. The last argument is not in the source: it collects
  the (quality, resize_factor) of every encode performed, newest first, and is returned
  oldest first beside the result.
\<close>

partial_function (option) search_loop ::
  "('px, 'c) env \<Rightarrow> 'px image \<Rightarrow> int \<Rightarrow> float64 \<Rightarrow> (int \<times> float64) list
     \<Rightarrow> ((int \<times> float64) list \<times> (py_error + bytes)) option" where
  "search_loop E img quality resize_factor tried =
     (case encode_candidate E img quality resize_factor of
        Inl e \<Rightarrow> Some (rev ((quality, resize_factor) # tried), Inl e)
      | Inr data \<Rightarrow>
          if length data \<le> MAX_FILE_SIZE
          then Some (rev ((quality, resize_factor) # tried), Inr data)
          else
            (case adjust quality resize_factor of
               None \<Rightarrow> Some (rev ((quality, resize_factor) # tried), Inl budget_unreachable)
             | Some (quality', resize_factor') \<Rightarrow>
                 search_loop E img quality' resize_factor' ((quality, resize_factor) # tried)))"

definition normalize_image :: "('px, 'c) env \<Rightarrow> 'px image \<Rightarrow> 'px image" where
  \<comment> \<open>lines 52 to 54\<close>
  "normalize_image E img =
     (let img' = correct_image_orientation E img
      in if mode img' \<noteq> ''RGB'' then convert_rgb E img' else img')"

definition prepare_raster :: "('px, 'c) env \<Rightarrow> bytes \<Rightarrow> py_error + 'px image" where
  \<comment> \<open>lines 50 to 61: the raster that enters the loop\<close>
  "prepare_raster E input =
     (case image_open E input of
        Inl e \<Rightarrow> Inl e
      | Inr img \<Rightarrow> pre_downscale E (length input) (normalize_image E img))"

definition compress_trace ::
  "('px, 'c) env \<Rightarrow> bytes \<Rightarrow> ((int \<times> float64) list \<times> (py_error + bytes)) option" where
  \<comment> \<open>the function with the encodes it performed\<close>
  "compress_trace E input =
     (case prepare_raster E input of
        Inl e \<Rightarrow> Some ([], Inl e)
      | Inr img \<Rightarrow> search_loop E img 95 f_one [])"

definition compress_image_adaptively ::
  "('px, 'c) env \<Rightarrow> bytes \<Rightarrow> (py_error + bytes) option" where
  \<comment> \<open>the bytes returned are those copied to \<open>output_path\<close>\<close>
  "compress_image_adaptively E input = map_option snd (compress_trace E input)"

subsection \<open>The step schedule\<close>

text \<open>
  The states the loop can visit do not depend on the image: they are the iterates of
  \<open>adjust\<close> from quality 95 and resize factor 1.0. \<open>schedule_from n\<close> lists at most
  \<open>n\<close> of them and stops where \<open>adjust\<close> raises.
\<close>

fun schedule_from :: "nat \<Rightarrow> int \<Rightarrow> float64 \<Rightarrow> (int \<times> float64) list" where
  "schedule_from 0 quality resize_factor = []"
| "schedule_from (Suc n) quality resize_factor =
     (quality, resize_factor) #
       (case adjust quality resize_factor of
          None \<Rightarrow> []
        | Some (quality', resize_factor') \<Rightarrow> schedule_from n quality' resize_factor')"

definition schedule :: "(int \<times> float64) list" where
  "schedule = schedule_from 13 95 f_one"

definition candidate ::
  "('px, 'c) env \<Rightarrow> 'px image \<Rightarrow> int \<times> float64 \<Rightarrow> py_error + bytes" where
  "candidate E img c = encode_candidate E img (fst c) (snd c)"

definition too_big :: "py_error + bytes \<Rightarrow> bool" where
  \<comment> \<open>an encode that succeeded and is over the budget\<close>
  "too_big r = (case r of Inl e \<Rightarrow> False | Inr data \<Rightarrow> MAX_FILE_SIZE < length data)"

fun run_schedule ::
  "('px, 'c) env \<Rightarrow> 'px image \<Rightarrow> (int \<times> float64) list
     \<Rightarrow> (int \<times> float64) list \<times> (py_error + bytes)" where
  "run_schedule E img [] = ([], Inl budget_unreachable)"
| "run_schedule E img (c # cs) =
     (if too_big (candidate E img c) \<and> cs \<noteq> []
      then (c # fst (run_schedule E img cs), snd (run_schedule E img cs))
      else if too_big (candidate E img c) then ([c], Inl budget_unreachable)
      else ([c], candidate E img c))"

section \<open>The other stages of the pipeline\<close>

definition extract_first_page_from_pdf :: "('px, 'c) env \<Rightarrow> bytes \<Rightarrow> py_error + bytes" where
  \<comment> \<open>\<open>images[0]\<close> raises IndexError on an empty list; the result is the JPEG written\<close>
  "extract_first_page_from_pdf E input =
     (case convert_from_path E input TARGET_DPI of
        Inl e \<Rightarrow> Inl e
      | Inr images \<Rightarrow>
          (case images of
             [] \<Rightarrow> Inl IndexError
           | first # rest \<Rightarrow> jpeg_save E first None))"

definition split_image_file ::
  "('px, 'c) env \<Rightarrow> bytes \<Rightarrow> int \<Rightarrow> py_error + 'c raster list" where
  \<comment> \<open>\<open>split_image_horizontally\<close> from the path: \<open>cv2.imread\<close> gives \<open>None\<close> for a
      file it cannot read, and \<open>None.shape\<close> raises\<close>
  "split_image_file E image_file parts =
     (case cv2_imread E image_file of
        None \<Rightarrow> Inl AttributeError
      | Some img \<Rightarrow> split_image_horizontally img parts)"

fun tile_pages :: "('px, 'c) env \<Rightarrow> 'c raster list \<Rightarrow> py_error + bytes list" where
  "tile_pages E [] = Inr []"
| "tile_pages E (tile # tiles) =
     (case tile_page E tile of
        Inl e \<Rightarrow> Inl e
      | Inr page \<Rightarrow>
          (case tile_pages E tiles of
             Inl e \<Rightarrow> Inl e
           | Inr pages \<Rightarrow> Inr (page # pages)))"

definition tiles_to_pdf :: "('px, 'c) env \<Rightarrow> 'c raster list \<Rightarrow> py_error + bytes" where
  "tiles_to_pdf E tiles =
     (case tile_pages E tiles of
        Inl e \<Rightarrow> Inl e
      | Inr pages \<Rightarrow> Inr (pdf_write E pages))"

subsection \<open>File names\<close>

definition basename :: "string \<Rightarrow> string" where
  \<comment> \<open>\<open>os.path.basename\<close>: what follows the last slash\<close>
  "basename p = rev (takeWhile (\<lambda>c. c \<noteq> CHR ''/'') (rev p))"

definition splitext_ext :: "string \<Rightarrow> string" where
  \<comment> \<open>\<open>os.path.splitext(name)[1]\<close> for a name without a slash: from the last dot on,
      unless only dots come before it\<close>
  "splitext_ext name =
     (let tail = rev (takeWhile (\<lambda>c. c \<noteq> CHR ''.'') (rev name));
          stem = take (length name - length tail - 1) name
      in if CHR ''.'' \<in> set name \<and> (\<exists>c \<in> set stem. c \<noteq> CHR ''.'')
         then CHR ''.'' # tail else [])"

definition lower_char :: "char \<Rightarrow> char" where
  "lower_char c =
     (if CHR ''A'' \<le> c \<and> c \<le> CHR ''Z'' then char_of (of_char c + (32 :: nat)) else c)"

definition lower :: "string \<Rightarrow> string" where
  \<comment> \<open>\<open>str.lower\<close> on the ASCII letters\<close>
  "lower name = map lower_char name"

definition rsplit_dot_head :: "string \<Rightarrow> string" where
  \<comment> \<open>\<open>name.rsplit('.', 1)[0]\<close>\<close>
  "rsplit_dot_head name =
     (if CHR ''.'' \<in> set name
      then take (length name - length (takeWhile (\<lambda>c. c \<noteq> CHR ''.'') (rev name)) - 1) name
      else name)"

definition path_join :: "string \<Rightarrow> string \<Rightarrow> string" where
  \<comment> \<open>\<open>os.path.join\<close> on two components\<close>
  "path_join a b =
     (if b \<noteq> [] \<and> hd b = CHR ''/'' then b
      else if a = [] \<or> last a = CHR ''/'' then a @ b
      else a @ ''/'' @ b)"

definition output_blob_path :: "string \<Rightarrow> string \<Rightarrow> string" where
  "output_blob_path output_prefix base_name =
     path_join output_prefix (rsplit_dot_head base_name @ ''_tiles.pdf'')"

definition raster_extensions :: "string list" where
  "raster_extensions = [''.jpg'', ''.jpeg'', ''.png'', ''.tif'', ''.tiff'']"

subsection \<open>Text\<close>

text \<open>
  A \<open>str\<close> is a \<open>string\<close>: a list of characters with code points below 256. On these,
  \<open>str.isspace\<close> holds of the code points 9 to 13, 28 to 32, 133 and 160, and
  \<open>str.splitlines\<close> breaks a line after the code points 10 to 13, 28 to 30 and 133, a
  carriage return followed by a line feed being one break. Strings are compared code
  point by code point, a proper prefix first.
\<close>

definition isspace :: "char \<Rightarrow> bool" where
  "isspace c = (of_char c \<in> set [9, 10, 11, 12, 13, 28, 29, 30, 31, 32, 133, 160 :: nat])"

definition strip :: "string \<Rightarrow> string" where
  \<comment> \<open>\<open>s.strip()\<close>\<close>
  "strip s = rev (dropWhile isspace (rev (dropWhile isspace s)))"

definition is_linebreak :: "char \<Rightarrow> bool" where
  "is_linebreak c = (of_char c \<in> set [10, 11, 12, 13, 28, 29, 30, 133 :: nat])"

fun splitlines_from :: "string \<Rightarrow> string \<Rightarrow> string list" where
  \<comment> \<open>the first argument is the line being read, last character first\<close>
  "splitlines_from line [] = (if line = [] then [] else [rev line])"
| "splitlines_from line [c] = (if is_linebreak c then [rev line] else [rev (c # line)])"
| "splitlines_from line (c # d # cs) =
     (if c = CHR 0x0D \<and> d = CHR 0x0A then rev line # splitlines_from [] cs
      else if is_linebreak c then rev line # splitlines_from [] (d # cs)
      else splitlines_from (c # line) (d # cs))"

definition splitlines :: "string \<Rightarrow> string list" where
  \<comment> \<open>\<open>s.splitlines()\<close>\<close>
  "splitlines s = splitlines_from [] s"

fun join :: "string \<Rightarrow> string list \<Rightarrow> string" where
  \<comment> \<open>\<open>sep.join(xs)\<close>\<close>
  "join sep [] = []"
| "join sep [x] = x"
| "join sep (x # y # ys) = x @ sep @ join sep (y # ys)"

subsection \<open>Cloud storage and the tracker\<close>

text \<open>
  The buckets are association lists from object names to contents, the input bucket in
  listing order. The tracker object is its text, \<open>None\<close> when the object does not
  exist. A storage call can fail: \<open>failing\<close> says which ones raise. \<open>calls\<close> is not in
  the source: it logs every storage call made, oldest first.
\<close>

datatype gcs_call = Download string | Upload string | TrackerRead | TrackerWrite

record world =
  input_objects :: "(string \<times> bytes) list"
  output_objects :: "(string \<times> bytes) list"
  tracker_text :: "string option"
  failing :: "gcs_call \<Rightarrow> bool"
  calls :: "gcs_call list"

definition transfer_failure :: py_error where
  "transfer_failure = LibraryError ''google.cloud.storage''"

definition download_to_filename :: "world \<Rightarrow> string \<Rightarrow> (py_error + bytes) \<times> world" where
  "download_to_filename w name =
     (let w' = w\<lparr>calls := calls w @ [Download name]\<rparr> in
      if failing w (Download name) then (Inl transfer_failure, w')
      else
        (case map_of (input_objects w) name of
           None \<Rightarrow> (Inl transfer_failure, w')
         | Some data \<Rightarrow> (Inr data, w')))"

definition upload_from_filename :: "world \<Rightarrow> string \<Rightarrow> bytes \<Rightarrow> (py_error + unit) \<times> world" where
  "upload_from_filename w name data =
     (let w' = w\<lparr>calls := calls w @ [Upload name]\<rparr> in
      if failing w (Upload name) then (Inl transfer_failure, w')
      else (Inr (), w'\<lparr>output_objects := (name, data) # output_objects w\<rparr>))"

definition load_tracker :: "world \<Rightarrow> (py_error + string set) \<times> world" where
  \<comment> \<open>lines 112 to 118\<close>
  "load_tracker w =
     (let w' = w\<lparr>calls := calls w @ [TrackerRead]\<rparr> in
      if failing w TrackerRead then (Inl transfer_failure, w')
      else
        (case tracker_text w of
           None \<Rightarrow> (Inr {}, w')
         | Some content \<Rightarrow> (Inr (set (splitlines (strip content))), w')))"

definition update_tracker :: "string set \<Rightarrow> string set \<Rightarrow> world \<Rightarrow> (py_error + unit) \<times> world" where
  \<comment> \<open>lines 120 to 125\<close>
  "update_tracker new_files existing w =
     (let all_files = existing \<union> new_files;
          w' = w\<lparr>calls := calls w @ [TrackerWrite]\<rparr>
      in if failing w TrackerWrite then (Inl transfer_failure, w')
         else (Inr (), w'\<lparr>tracker_text :=
                             Some (join [CHR 0x0A] (sorted_list_of_set all_files))\<rparr>))"

subsection \<open>The two endpoints\<close>

datatype response =
    Procesado string
  | Skipped string
  | Tareas_enviadas nat
  | Error py_error





definition make_image ::
  "('px, 'c) env \<Rightarrow> string \<Rightarrow> bytes \<Rightarrow> (py_error + bytes option) option" where
  \<comment> \<open>lines 193 to 198: what is written to \<open>image.jpg\<close>; \<open>Inr None\<close> is the skip\<close>
  "make_image E ext local_file =
     (if ext = ''.pdf'' then Some (map_sum id Some (extract_first_page_from_pdf E local_file))
      else if ext \<in> set raster_extensions
      then map_option (map_sum id Some) (compress_image_adaptively E local_file)
      else Some (Inr None))"

definition process_single ::
  "('px, 'c) env \<Rightarrow> world \<Rightarrow> string \<Rightarrow> string \<Rightarrow> int \<Rightarrow> (response \<times> world) option" where
  \<comment> \<open>lines 179 to 210, for a request already read; \<open>None\<close> is a run that never ends\<close>
  "process_single E w output_prefix file_path horizontal_parts =
     (let base_name = basename file_path in
      case download_to_filename w file_path of
        (Inl e, w1) \<Rightarrow> Some (Error e, w1)
      | (Inr local_file, w1) \<Rightarrow>
          (case make_image E (lower (splitext_ext base_name)) local_file of
             None \<Rightarrow> None
           | Some (Inl e) \<Rightarrow> Some (Error e, w1)
           | Some (Inr None) \<Rightarrow> Some (Skipped base_name, w1)
           | Some (Inr (Some image_file)) \<Rightarrow>
               (case split_image_file E image_file horizontal_parts of
                  Inl e \<Rightarrow> Some (Error e, w1)
                | Inr tiles \<Rightarrow>
                    (case tiles_to_pdf E tiles of
                       Inl e \<Rightarrow> Some (Error e, w1)
                     | Inr final_pdf \<Rightarrow>
                         (case upload_from_filename w1
                                 (output_blob_path output_prefix base_name) final_pdf of
                            (Inl e, w2) \<Rightarrow> Some (Error e, w2)
                          | (Inr u, w2) \<Rightarrow>
                              (case load_tracker w2 of
                                 (Inl e, w3) \<Rightarrow> Some (Error e, w3)
                               | (Inr existing, w3) \<Rightarrow>
                                   (case update_tracker {file_path} existing w3 of
                                      (Inl e, w4) \<Rightarrow> Some (Error e, w4)
                                    | (Inr u', w4) \<Rightarrow> Some (Procesado file_path, w4))))))))"



section \<open>A concrete environment\<close>

text \<open>
  An environment to run the definitions on: every file opens as the same 10000 by 8000
  RGB image without EXIF data, pixels carry no information, a saved JPEG has as many
  bytes as \<open>size_of\<close> says for the image and the quality, and \<open>x ** 0.5\<close> is the
  correctly rounded square root.
\<close>

function isqrt :: "int \<Rightarrow> int" where
  "isqrt n =
     (if n < 2 then n
      else let r = 2 * isqrt (n div 4) in if (r + 1) * (r + 1) \<le> n then r + 1 else r)"
  by pat_completeness auto
termination
  by (relation "measure nat") auto

definition f_sqrt :: "float64 \<Rightarrow> float64" where
  \<comment> \<open>the correctly rounded square root of a positive double\<close>
  "f_sqrt x =
     (let s0 = max 0 (110 - bitlen (mant x));
          s = (if even (expo x - s0) then s0 else s0 + 1);
          n = mant x * 2 ^ nat s;
          r = isqrt n;
          sticky = (if r * r = n then 0 else 1)
      in round_to_53 (2 * r + sticky) ((expo x - s) div 2 - 1))"

definition sample_image :: "unit image" where
  "sample_image =
     \<lparr>width = 10000, height = 8000, mode = ''RGB'', getexif = Inr None, pixels = ()\<rparr>"

definition sample_env :: "(unit image \<Rightarrow> int \<Rightarrow> nat) \<Rightarrow> (unit, nat) env" where
  "sample_env size_of =
     \<lparr>image_open = (\<lambda>data. Inr sample_image),
      px_rotate = (\<lambda>angle p. p),
      px_convert_rgb = (\<lambda>p. p),
      px_lanczos = (\<lambda>w h p. p),
      jpeg_save = (\<lambda>img opts. Inr (replicate (size_of img (case opts of None \<Rightarrow> 75 | Some (dpi, q) \<Rightarrow> q)) 0)),
      float_pow_half = f_sqrt,
      convert_from_path = (\<lambda>data dpi. Inr [sample_image]),
      cv2_imread = (\<lambda>data. Some [[1, 2], [3, 4], [5, 6]]),
      tile_page = (\<lambda>tile. Inr (concat tile)),
      pdf_write = concat\<rparr>"

definition by_area :: "unit image \<Rightarrow> int \<Rightarrow> nat" where
  \<comment> \<open>a size that grows with the pixel count and the quality\<close>
  "by_area img quality = nat (width img * height img * quality) div 225"

definition always_over :: "unit image \<Rightarrow> int \<Rightarrow> nat" where
  "always_over img quality = MAX_FILE_SIZE + 1"

definition tiny :: "unit image \<Rightarrow> int \<Rightarrow> nat" where
  "tiny img quality = 3"

text \<open>
  A world with one object \<open>maps/a.pdf\<close> and one object \<open>maps/b.png\<close> in the input
  bucket, an empty output bucket, the given tracker text and the given failing calls.
\<close>

definition sample_world :: "string option \<Rightarrow> (gcs_call \<Rightarrow> bool) \<Rightarrow> world" where
  "sample_world tracker bad =
     \<lparr>input_objects = [(''maps/a.pdf'', [37, 80, 68, 70]), (''maps/b.png'', [137, 80, 78, 71])],
      output_objects = [],
      tracker_text = tracker,
      failing = bad,
      calls = []\<rparr>"

section \<open>Properties of the tiler\<close>

lemma upto_map_int: "[0 .. int n - 1] = map int [0 ..< n]"
proof (induction n)
  case 0 show ?case by simp
next
  case (Suc n)
  have "[0 .. int (Suc n) - 1] = [0 .. int n - 1] @ [int n]"
    using upto_rec2 [of 0 "int n"] by simp
  with Suc show ?case by simp
qed

lemma py_slice_nat:
  "a \<le> b \<Longrightarrow> b \<le> length xs \<Longrightarrow> py_slice (int a) (int b) xs = take (b - a) (drop a xs)"
  by (simp add: py_slice_def clip_index_def Let_def min_def)

lemma take_drop_rows: "b \<le> length xs \<Longrightarrow> take (b - a) (drop a xs) = map (\<lambda>y. xs ! y) [a ..< b]"
proof (cases "a \<le> b")
  case True
  assume "b \<le> length xs"
  with True show ?thesis
    by (intro nth_equalityI) simp_all
next
  case False
  then show ?thesis by simp
qed

lemma concat_chunks:
  "concat (map (\<lambda>i. take t (drop (i * t) xs)) [0 ..< k]) = take (k * t) xs"
proof (induction k)
  case 0 show ?case by simp
next
  case (Suc k)
  have "take (k * t) xs @ take t (drop (k * t) xs) = take (k * t + t) xs"
    by (simp add: take_add)
  with Suc show ?case by (simp add: add.commute)
qed

lemma split_nat:
  assumes "0 < n"
  shows "split_image_horizontally img (int n) =
     Inr (map (\<lambda>i. py_slice (int (i * (length img div n)))
                     (if i = n - 1 then int (length img) else int ((i + 1) * (length img div n))) img)
              [0 ..< n])"
proof -
  have e: "int (length img) div int n = int (length img div n)" by (simp add: zdiv_int)
  have c: "(int i = int n - 1) = (i = n - 1)" for i using assms by auto
  have "tile_bounds (int (length img)) (int n) (int (length img div n)) (int i) =
        (int (i * (length img div n)),
         if i = n - 1 then int (length img) else int ((i + 1) * (length img div n)))" for i
    unfolding tile_bounds_def c by (simp add: algebra_simps)
  then show ?thesis using assms
    by (simp add: split_image_horizontally_def Let_def upto_map_int e o_def
        del: of_nat_mult of_nat_add of_nat_Suc)
qed


text \<open>
  C2. For a raster of height \<open>H\<close> whose rows all have width \<open>W\<close>, and a parts count
  \<open>N\<close> with \<open>1 \<le> N \<le> H\<close>, the tiler returns exactly \<open>N\<close> tiles. With
  \<open>tile_height = H div N\<close>, tile \<open>i < N - 1\<close> is the rows
  \<open>[i * tile_height, (i + 1) * tile_height)\<close>, the final tile is the rows
  \<open>[(N - 1) * tile_height, H)\<close>, every row of every tile has width \<open>W\<close>, and the tiles
  put one after the other are the raster again: the row ranges partition \<open>[0, H)\<close>.
  For 1000 rows and 4 parts the ranges are \<open>[0,250), [250,500), [500,750), [750,1000)\<close>.
\<close>

theorem split_image_horizontally_partition:
  assumes "1 \<le> parts" and "parts \<le> int (length img)" and "has_width w img"
  shows "\<exists>tiles. split_image_horizontally img parts = Inr tiles
           \<and> length tiles = nat parts
           \<and> (\<forall>i < nat parts - 1.
                 tiles ! i = rows_between img (i * (length img div nat parts))
                                              ((i + 1) * (length img div nat parts)))
           \<and> tiles ! (nat parts - 1) =
                 rows_between img ((nat parts - 1) * (length img div nat parts)) (length img)
           \<and> list_all (has_width w) tiles
           \<and> concat tiles = img
           \<and> map (tile_bounds 1000 4 (1000 div 4)) [0 .. 3] =
                 [(0, 250), (250, 500), (500, 750), (750, 1000)]"
proof -
  define n where "n = nat parts"
  define t where "t = length img div n"
  define tiles where "tiles = map (\<lambda>i. py_slice (int (i * t))
                     (if i = n - 1 then int (length img) else int ((i + 1) * t)) img) [0 ..< n]"
  have n: "0 < n" "parts = int n" "n \<le> length img" using assms by (simp_all add: n_def)
  have tn: "t * n \<le> length img" by (simp add: t_def)
  have bound: "(i + 1) * t \<le> length img" if "i < n" for i
  proof -
    have "(i + 1) * t \<le> n * t" using that by (intro mult_right_mono) simp_all
    with tn show ?thesis by (simp add: mult.commute)
  qed
  have run: "split_image_horizontally img parts = Inr tiles"
    unfolding n(2) tiles_def t_def by (rule split_nat [OF n(1)])
  have len: "length tiles = n" by (simp add: tiles_def)
  have inner: "tiles ! i = take t (drop (i * t) img)" if "i < n - 1" for i
  proof -
    have "i < n" "i \<noteq> n - 1" using that by simp_all
    moreover have "py_slice (int (i * t)) (int ((i + 1) * t)) img
                     = take ((i + 1) * t - i * t) (drop (i * t) img)"
      using bound [of i] \<open>i < n\<close> by (intro py_slice_nat) simp_all
    ultimately show ?thesis by (simp add: tiles_def)
  qed
  have final: "tiles ! (n - 1) = drop ((n - 1) * t) img"
  proof -
    have "(n - 1) * t \<le> n * t" by (intro mult_right_mono) simp_all
    also have "\<dots> = t * n" by (rule mult.commute)
    finally have "(n - 1) * t \<le> length img" using tn by (rule order_trans)
    then have "py_slice (int ((n - 1) * t)) (int (length img)) img
                 = take (length img - (n - 1) * t) (drop ((n - 1) * t) img)"
      by (intro py_slice_nat) simp_all
    then show ?thesis using n(1) by (simp add: tiles_def)
  qed
  have rows_inner: "tiles ! i = rows_between img (i * t) ((i + 1) * t)" if "i < n - 1" for i
  proof -
    have "i < n" using that by simp
    from take_drop_rows [OF bound [OF this], of "i * t"] inner [OF that]
    show ?thesis by (simp add: rows_between_def)
  qed
  have rows_final: "tiles ! (n - 1) = rows_between img ((n - 1) * t) (length img)"
    using take_drop_rows [of "length img" img "(n - 1) * t"] final
    by (simp add: rows_between_def)
  have split_list: "tiles = map (\<lambda>i. take t (drop (i * t) img)) [0 ..< n - 1]
                             @ [drop ((n - 1) * t) img]"
  proof (rule nth_equalityI)
    show "length tiles = length (map (\<lambda>i. take t (drop (i * t) img)) [0 ..< n - 1]
                             @ [drop ((n - 1) * t) img])"
      using n(1) by (simp add: len)
  next
    fix i assume "i < length tiles"
    then have "i < n - 1 \<or> i = n - 1" using len by auto
    then show "tiles ! i = (map (\<lambda>i. take t (drop (i * t) img)) [0 ..< n - 1]
                             @ [drop ((n - 1) * t) img]) ! i"
      using inner final by (auto simp: nth_append)
  qed
  have cat: "concat tiles = img"
    unfolding split_list by (simp add: concat_chunks)
  have wid: "list_all (has_width w) tiles"
  proof -
    have "\<forall>row \<in> set img. length row = w"
      using assms(3) by (simp add: has_width_def list_all_iff)
    moreover have "set tl \<subseteq> set img" if "tl \<in> set tiles" for tl
      using that unfolding split_list by (auto dest: in_set_takeD in_set_dropD)
    ultimately show ?thesis by (auto simp: has_width_def list_all_iff)
  qed
  have ex: "map (tile_bounds 1000 4 (1000 div 4)) [0 .. 3] =
                 [(0, 250), (250, 500), (500, 750), (750, 1000)]"
    by (simp add: upto.simps tile_bounds_def)
  show ?thesis
    unfolding n_def [symmetric] t_def [symmetric]
  proof (intro exI [of _ tiles] conjI allI impI)
    fix i assume "i < n - 1"
    then show "tiles ! i = rows_between img (i * t) ((i + 1) * t)" by (rule rows_inner)
  qed (fact run len rows_final wid cat ex)+
qed

theorem split_image_horizontally_partition_witness:
  "(1::int) \<le> 2 \<and> (2::int) \<le> int (length [[1, 2], [3, 4], [5, 6], [7, 8], [9, 10::nat]])
     \<and> has_width 2 [[1, 2], [3, 4], [5, 6], [7, 8], [9, 10::nat]]
     \<and> split_image_horizontally [[1, 2], [3, 4], [5, 6], [7, 8], [9, 10::nat]] 2
          = Inr [[[1, 2], [3, 4]], [[5, 6], [7, 8], [9, 10]]]"
proof -
  have h1: "(1::int) \<le> 2" by simp
  have h2: "(2::int) \<le> int (length [[1, 2], [3, 4], [5, 6], [7, 8], [9, 10::nat]])" by simp
  have h3: "has_width 2 [[1, 2], [3, 4], [5, 6], [7, 8], [9, 10::nat]]"
    by (simp add: has_width_def)
  from split_image_horizontally_partition [OF h1 h2 h3]
  obtain tiles where t: "split_image_horizontally [[1, 2], [3, 4], [5, 6], [7, 8], [9, 10::nat]] 2 = Inr tiles"
    and c: "concat tiles = [[1, 2], [3, 4], [5, 6], [7, 8], [9, 10::nat]]"
    by blast
  have "split_image_horizontally [[1, 2], [3, 4], [5, 6], [7, 8], [9, 10::nat]] 2
          = Inr [[[1, 2], [3, 4]], [[5, 6], [7, 8], [9, 10]]]"
    by (simp add: split_image_horizontally_def Let_def tile_bounds_def py_slice_def
        clip_index_def upto.simps)
  with t have "tiles = [[[1, 2], [3, 4]], [[5, 6], [7, 8], [9, 10]]]" by simp
  with t c h1 h2 h3 show ?thesis by simp
qed

text \<open>
  A raster of 2 rows split into 3 parts is not rejected: the tiler returns three tiles, the
  first two of height zero.
\<close>

theorem split_more_parts_than_rows_counterexample:
  "split_image_horizontally [[1, 2], [3, 4::nat]] 3 = Inr [[], [], [[1, 2], [3, 4]]]"
  by (simp add: split_image_horizontally_def Let_def tile_bounds_def py_slice_def
      clip_index_def upto.simps)

text \<open>
  C6 (amended). The tiler validates nothing. For a raster of height \<open>H\<close> and a parts
  count \<open>N > H\<close> it raises no error and returns \<open>N\<close> tiles: \<open>N - 1\<close> tiles of
  height zero followed by one tile that is the whole raster.
\<close>

theorem split_more_parts_than_rows:
  assumes "int (length img) < parts"
  shows "split_image_horizontally img parts = Inr (replicate (nat parts - 1) [] @ [img])"
proof -
  define n where "n = nat parts"
  have n: "0 < n" "parts = int n" "length img < n" using assms by (simp_all add: n_def)
  have t: "length img div n = 0" using n(3) by simp
  have "map (\<lambda>i. py_slice (int (i * (length img div n)))
                     (if i = n - 1 then int (length img) else int ((i + 1) * (length img div n))) img)
              [0 ..< n] = replicate (n - 1) [] @ [img]"
  proof (rule nth_equalityI)
    show "length (map (\<lambda>i. py_slice (int (i * (length img div n)))
                     (if i = n - 1 then int (length img) else int ((i + 1) * (length img div n))) img)
              [0 ..< n]) = length (replicate (n - 1) [] @ [img])"
      using n(1) by simp
  next
    fix i
    assume "i < length (map (\<lambda>i. py_slice (int (i * (length img div n)))
                     (if i = n - 1 then int (length img) else int ((i + 1) * (length img div n))) img)
              [0 ..< n])"
    then have "i < n" by simp
    then show "map (\<lambda>i. py_slice (int (i * (length img div n)))
                     (if i = n - 1 then int (length img) else int ((i + 1) * (length img div n))) img)
              [0 ..< n] ! i = (replicate (n - 1) [] @ [img]) ! i"
      by (auto simp: t nth_append py_slice_def clip_index_def)
  qed
  then show ?thesis
    unfolding n(2) n_def [symmetric] using split_nat [OF n(1), of img] by simp
qed

theorem split_more_parts_than_rows_witness:
  "int (length [[7::nat]]) < 3 \<and> split_image_horizontally [[7::nat]] 3 = Inr [[], [], [[7]]]"
  using split_more_parts_than_rows [of "[[7::nat]]" 3] by (simp add: numeral_2_eq_2)

section \<open>Properties of the compressor\<close>

lemma schedule_from_nonempty: "0 < n \<Longrightarrow> schedule_from n q rf \<noteq> []"
  by (cases n) simp_all

lemma search_loop_run_schedule:
  assumes "length (schedule_from n q rf) < n"
  shows "search_loop E img q rf tried =
           Some (rev tried @ fst (run_schedule E img (schedule_from n q rf)),
                 snd (run_schedule E img (schedule_from n q rf)))"
  using assms
proof (induction n arbitrary: q rf tried)
  case 0
  then show ?case by simp
next
  case (Suc n)
  show ?case
  proof (cases "too_big (candidate E img (q, rf))")
    case False
    then show ?thesis
      by (subst search_loop.simps)
         (auto simp: too_big_def candidate_def split: sum.splits)
  next
    case big: True
    then obtain data where d: "encode_candidate E img q rf = Inr data"
      "\<not> length data \<le> MAX_FILE_SIZE"
      by (auto simp: too_big_def candidate_def split: sum.splits)
    show ?thesis
    proof (cases "adjust q rf")
      case None
      with big d show ?thesis
        by (subst search_loop.simps) simp
    next
      case (Some s)
      obtain q' rf' where s: "s = (q', rf')" by (cases s)
      from Suc.prems Some s have len: "length (schedule_from n q' rf') < n" by simp
      then have ne: "schedule_from n q' rf' \<noteq> []"
        by (intro schedule_from_nonempty) simp
      from Suc.IH [OF len, of "(q, rf) # tried"] big d Some s ne show ?thesis
        by (subst search_loop.simps) simp
    qed
  qed
qed

lemma schedule_eq: "schedule =
 [(95, \<lparr>mant = 1, expo = 0\<rparr>), (90, \<lparr>mant = 1, expo = 0\<rparr>),
  (90, \<lparr>mant = 8556839292003942, expo = - 53\<rparr>),
  (90, \<lparr>mant = 8106479329266892, expo = - 53\<rparr>),
  (90, \<lparr>mant = 7656119366529842, expo = - 53\<rparr>),
  (90, \<lparr>mant = 7205759403792792, expo = - 53\<rparr>),
  (90, \<lparr>mant = 6755399441055742, expo = - 53\<rparr>),
  (90, \<lparr>mant = 6305039478318692, expo = - 53\<rparr>),
  (90, \<lparr>mant = 5854679515581642, expo = - 53\<rparr>),
  (90, \<lparr>mant = 5404319552844592, expo = - 53\<rparr>),
  (90, \<lparr>mant = 4953959590107542, expo = - 53\<rparr>),
  (90, \<lparr>mant = 9007199254740985, expo = - 54\<rparr>)]"
  unfolding schedule_def by code_simp

lemma length_schedule: "length schedule = 12"
  by (simp add: schedule_eq)

lemma search_loop_schedule:
  "search_loop E img 95 f_one [] =
     Some (fst (run_schedule E img schedule), snd (run_schedule E img schedule))"
proof -
  have "length (schedule_from 13 95 f_one) < 13"
    using length_schedule by (simp add: schedule_def)
  from search_loop_run_schedule [OF this, of E img "[]"] show ?thesis
    by (simp add: schedule_def)
qed

lemma run_schedule_shape:
  assumes "cs \<noteq> []"
  shows "\<exists>k < length cs.
           fst (run_schedule E img cs) = take (Suc k) cs
         \<and> (\<forall>j < k. too_big (candidate E img (cs ! j)))
         \<and> (if too_big (candidate E img (cs ! k))
              then snd (run_schedule E img cs) = Inl budget_unreachable \<and> Suc k = length cs
              else snd (run_schedule E img cs) = candidate E img (cs ! k))"
  using assms
proof (induction cs)
  case Nil
  then show ?case by simp
next
  case (Cons c cs)
  show ?case
  proof (cases "too_big (candidate E img c) \<and> cs \<noteq> []")
    case True
    with Cons.IH obtain k where k: "k < length cs"
      "fst (run_schedule E img cs) = take (Suc k) cs"
      "\<forall>j < k. too_big (candidate E img (cs ! j))"
      "if too_big (candidate E img (cs ! k))
       then snd (run_schedule E img cs) = Inl budget_unreachable \<and> Suc k = length cs
       else snd (run_schedule E img cs) = candidate E img (cs ! k)"
      by blast
    have "\<forall>j < Suc k. too_big (candidate E img ((c # cs) ! j))"
      using True k(3) by (auto simp: less_Suc_eq_0_disj)
    with True k(1,2,4) show ?thesis
      by (intro exI [of _ "Suc k"]) (simp split: if_splits)
  next
    case False
    then show ?thesis
      by (intro exI [of _ 0]) auto
  qed
qed

lemma compress_trace_shape:
  "(\<exists>e. prepare_raster E input = Inl e \<and> compress_trace E input = Some ([], Inl e))
   \<or> (\<exists>img k. prepare_raster E input = Inr img \<and> k < length schedule
         \<and> (\<forall>j < k. too_big (candidate E img (schedule ! j)))
         \<and> (if too_big (candidate E img (schedule ! k))
              then compress_trace E input = Some (take (Suc k) schedule, Inl budget_unreachable)
                   \<and> Suc k = length schedule
              else compress_trace E input =
                     Some (take (Suc k) schedule, candidate E img (schedule ! k))))"
proof (cases "prepare_raster E input")
  case (Inl e)
  then show ?thesis by (simp add: compress_trace_def)
next
  case (Inr img)
  have "schedule \<noteq> []" using length_schedule by auto
  from run_schedule_shape [OF this, of E img] obtain k where k: "k < length schedule"
      "fst (run_schedule E img schedule) = take (Suc k) schedule"
      "\<forall>j < k. too_big (candidate E img (schedule ! j))"
      "if too_big (candidate E img (schedule ! k))
       then snd (run_schedule E img schedule) = Inl budget_unreachable \<and> Suc k = length schedule
       else snd (run_schedule E img schedule) = candidate E img (schedule ! k)"
    by blast
  have "compress_trace E input =
          Some (fst (run_schedule E img schedule), snd (run_schedule E img schedule))"
    using Inr by (simp add: compress_trace_def search_loop_schedule)
  with k Inr show ?thesis
    by (intro disjI2 exI [of _ img] exI [of _ k]) (simp split: if_splits)
qed

lemma compress_trace_run:
  "prepare_raster E input = Inr img \<Longrightarrow>
   compress_trace E input =
     Some (fst (run_schedule E img schedule), snd (run_schedule E img schedule))"
  by (simp add: compress_trace_def search_loop_schedule)

lemma sample_scaled:
  "scaled 10000 \<lparr>mant = 1, expo = 0\<rparr> = 10000"
  "scaled 8000 \<lparr>mant = 1, expo = 0\<rparr> = 8000"
  "scaled 10000 \<lparr>mant = 8556839292003942, expo = - 53\<rparr> = 9500"
  "scaled 8000 \<lparr>mant = 8556839292003942, expo = - 53\<rparr> = 7600"
  "scaled 10000 \<lparr>mant = 9007199254740985, expo = - 54\<rparr> = 4999"
  by code_simp+

lemma sample_candidate:
  "candidate (sample_env f) sample_image (q, r) =
     Inr (replicate (f (sample_image\<lparr>width := scaled 10000 r, height := scaled 8000 r\<rparr>) q) 0)"
  by (simp add: candidate_def encode_candidate_def sample_env_def resize_def sample_image_def)

lemma int_truediv_ok: "b \<noteq> 0 \<Longrightarrow> \<exists>x. int_truediv a b = Inr x"
  by (simp add: int_truediv_def f_div_def Let_def)

lemma pre_downscale_small:
  assumes "original_size \<le> MAX_FILE_SIZE"
  shows "pre_downscale E original_size img = Inr img"
proof -
  obtain x where "int_truediv (width img * height img) 1000000 = Inr x"
    using int_truediv_ok [of 1000000] by auto
  with assms show ?thesis by (simp add: pre_downscale_def)
qed

lemma sample_prepare: "prepare_raster (sample_env f) [255, 216] = Inr sample_image"
proof -
  have "normalize_image (sample_env f) sample_image = sample_image"
    by (simp add: normalize_image_def correct_image_orientation_def orientation_try_def
        sample_image_def)
  moreover have "image_open (sample_env f) [255, 216] = Inr sample_image"
    by (simp add: sample_env_def)
  ultimately show ?thesis
    by (simp add: prepare_raster_def pre_downscale_small MAX_FILE_SIZE_def)
qed

lemma sample_by_area_run:
  "compress_trace (sample_env by_area) [255, 216] =
     Some (take 3 schedule, Inr (replicate 28880000 0))"
  unfolding compress_trace_run [OF sample_prepare]
  by (simp add: schedule_eq too_big_def sample_candidate sample_scaled by_area_def
      MAX_FILE_SIZE_def)

lemma sample_always_over_run:
  "compress_trace (sample_env always_over) [255, 216] =
     Some (schedule, Inl budget_unreachable)"
  unfolding compress_trace_run [OF sample_prepare]
  by (simp add: schedule_eq too_big_def sample_candidate always_over_def)

text \<open>
  C1. Whenever the adaptive compressor returns success, the JPEG it returns has at most
  \<open>MAX_FILE_SIZE\<close> bytes, and it is the first candidate of the schedule that fits:
  the encodes performed are exactly the candidates up to it, every earlier one encoded
  to more than the budget, and nothing is encoded after it.
\<close>

theorem compress_returns_first_fit:
  assumes "compress_image_adaptively E input = Some (Inr data)"
  shows "length data \<le> MAX_FILE_SIZE
       \<and> (\<exists>img k. prepare_raster E input = Inr img
             \<and> k < length schedule
             \<and> compress_trace E input = Some (take (Suc k) schedule, Inr data)
             \<and> candidate E img (schedule ! k) = Inr data
             \<and> (\<forall>j < k. too_big (candidate E img (schedule ! j))))"
proof -
  from assms obtain tr where tr: "compress_trace E input = Some (tr, Inr data)"
    by (auto simp: compress_image_adaptively_def)
  from compress_trace_shape [of E input] tr
  obtain img k where k: "prepare_raster E input = Inr img" "k < length schedule"
      "\<forall>j < k. too_big (candidate E img (schedule ! j))"
      "\<not> too_big (candidate E img (schedule ! k))"
      "compress_trace E input = Some (take (Suc k) schedule, candidate E img (schedule ! k))"
    by (auto split: if_splits)
  from k(5) tr have c: "candidate E img (schedule ! k) = Inr data" by simp
  with k(4) have "length data \<le> MAX_FILE_SIZE" by (simp add: too_big_def)
  with k c show ?thesis by auto
qed

theorem compress_returns_first_fit_witness:
  "compress_image_adaptively (sample_env by_area) [255, 216] = Some (Inr (replicate 28880000 0))
   \<and> length (replicate 28880000 (0::nat)) \<le> MAX_FILE_SIZE
   \<and> compress_trace (sample_env by_area) [255, 216]
        = Some (take 3 schedule, Inr (replicate 28880000 0))"
proof -
  have h: "compress_image_adaptively (sample_env by_area) [255, 216]
             = Some (Inr (replicate 28880000 0))"
    by (simp add: compress_image_adaptively_def sample_by_area_run)
  from compress_returns_first_fit [OF h] have "length (replicate 28880000 (0::nat)) \<le> MAX_FILE_SIZE"
    by blast
  with h sample_by_area_run show ?thesis by blast
qed








text \<open>
  C5, on the code. When no candidate fits, the 12th encode is performed at a resize
  factor below \<open>min_resize\<close>: ten subtractions of the double 0.05 from 1.0 give
  \<open>0.5 - 7 / 2 ^ 54\<close> (0.4999999999999996), not 0.5; a width of 10000 is resized to
  4999. The search then fails with the resize factor at that value.
\<close>

theorem search_goes_below_min_resize:
  "compress_trace (sample_env always_over) [255, 216] = Some (schedule, Inl budget_unreachable)
   \<and> length schedule = 12
   \<and> last schedule = (90, \<lparr>mant = 9007199254740985, expo = - 54\<rparr>)
   \<and> f_less (snd (last schedule)) f_half
   \<and> f_value (snd (last schedule)) = 1 / 2 - 7 / 2 ^ 54
   \<and> scaled 10000 (snd (last schedule)) = 4999"
proof -
  have "f_value \<lparr>mant = 9007199254740985, expo = - 54\<rparr> = 1 / 2 - 7 / 2 ^ 54"
    by (simp add: f_value_def power_int_minus)
  then show ?thesis
    using sample_always_over_run
    by (simp add: schedule_eq f_less_def f_half_def sample_scaled)
qed

section \<open>Properties of the normalizer and of the pre-downscale step\<close>

text \<open>
  C9. The orientation normalizer never raises and returns an image: rotated by 180
  degrees when the EXIF orientation is 3, by 270 degrees when it is 6, by 90 degrees
  when it is 8, and the image it was given for any other value and for metadata that is
  absent or cannot be read. A rotation by 180 degrees keeps the dimensions, the other
  two swap them. The caller then holds an image in mode RGB.
\<close>

theorem correct_image_orientation_rule:
  "correct_image_orientation E img =
     (if exif_orientation img = Some 3 then rotate E 180 img
      else if exif_orientation img = Some 6 then rotate E 270 img
      else if exif_orientation img = Some 8 then rotate E 90 img
      else img)
   \<and> mode (normalize_image E img) = ''RGB''
   \<and> (width (rotate E 180 img), height (rotate E 180 img)) = (width img, height img)
   \<and> (width (rotate E 270 img), height (rotate E 270 img)) = (height img, width img)
   \<and> (width (rotate E 90 img), height (rotate E 90 img)) = (height img, width img)"
proof -
  have rule: "correct_image_orientation E img =
     (if exif_orientation img = Some 3 then rotate E 180 img
      else if exif_orientation img = Some 6 then rotate E 270 img
      else if exif_orientation img = Some 8 then rotate E 90 img
      else img)"
  proof (cases "getexif img")
    case (Inl e)
    then show ?thesis
      by (simp add: correct_image_orientation_def orientation_try_def exif_orientation_def)
  next
    case (Inr exif)
    show ?thesis
    proof (cases exif)
      case None
      with Inr show ?thesis
        by (simp add: correct_image_orientation_def orientation_try_def exif_orientation_def)
    next
      case (Some d)
      show ?thesis
      proof (cases "map_of d orientation_tag")
        case None
        with Inr Some show ?thesis
          by (simp add: correct_image_orientation_def orientation_try_def exif_orientation_def)
      next
        case found: (Some v)
        then have "d \<noteq> []" by auto
        with Inr Some found show ?thesis
          by (cases v)
             (simp_all add: correct_image_orientation_def orientation_try_def
                exif_orientation_def)
      qed
    qed
  qed
  have keep: "mode (correct_image_orientation E img) = mode img"
    unfolding rule by (simp add: rotate_def)
  have rgb: "mode (normalize_image E img) = ''RGB''"
    using keep by (simp add: normalize_image_def Let_def convert_rgb_def)
  show ?thesis
    using rule rgb by (simp add: rotate_def)
qed

lemma f_less_twenty_pos: "f_less f_twenty x \<Longrightarrow> 0 < mant x"
proof -
  assume "f_less f_twenty x"
  then have "(0::int) < mant x * 2 ^ nat (expo x - min 0 (expo x))"
    by (simp add: f_less_def f_twenty_def Let_def)
       (smt (verit) zero_le_power mult_nonneg_nonneg)
  then show ?thesis by (simp add: zero_less_mult_iff)
qed

text \<open>
  The test \<open>current_megapixels > 20\<close> is made on the double \<open>width * height / 1e6\<close>.
  The division is correctly rounded, and the test holds exactly when the raster has more
  than 20000000 pixels.
\<close>

lemma round_to_53_bounds:
  assumes "0 < m"
  defines "k \<equiv> nat (bitlen m - 53)"
  shows "expo (round_to_53 m e) = e + int k"
    and "m div 2 ^ k \<le> mant (round_to_53 m e)"
    and "mant (round_to_53 m e) \<le> m div 2 ^ k + 1"
    and "m mod 2 ^ k = 0 \<Longrightarrow> mant (round_to_53 m e) = m div 2 ^ k"
proof -
  have abs: "\<bar>m\<bar> = m" "sgn m = 1" using assms by simp_all
  show "expo (round_to_53 m e) = e + int k"
    by (simp add: round_to_53_def Let_def abs k_def)
  show "m div 2 ^ k \<le> mant (round_to_53 m e)"
    by (simp add: round_to_53_def Let_def abs k_def)
  show "mant (round_to_53 m e) \<le> m div 2 ^ k + 1"
    by (simp add: round_to_53_def Let_def abs k_def)
  show "mant (round_to_53 m e) = m div 2 ^ k" if "m mod 2 ^ k = 0"
  proof (cases "bitlen m \<le> 53")
    case True
    then show ?thesis by (simp add: round_to_53_def Let_def abs k_def)
  next
    case False
    then have "0 < k" by (simp add: k_def)
    then have "(0::int) < 2 ^ (k - 1)" by simp
    with that False show ?thesis
      by (simp add: round_to_53_def Let_def abs k_def)
  qed
qed

lemma f_less_twenty_iff:
  assumes "expo x = int k - int K - 1"
  shows "f_less f_twenty x \<longleftrightarrow> 40 * 2 ^ K < mant x * 2 ^ k"
proof (cases "K + 1 \<le> k")
  case True
  then have e: "min 0 (expo x) = 0" "nat (expo x) = k - (K + 1)" using assms by simp_all
  have "(2::int) ^ k = 2 ^ (k - (K + 1) + (K + 1))" using True by simp
  then have "(2::int) ^ k = 2 ^ (k - (K + 1)) * 2 ^ (K + 1)" by (simp only: power_add)
  then have "mant x * 2 ^ k = mant x * 2 ^ (k - (K + 1)) * 2 ^ (K + 1)"
    by (simp only: mult.assoc)
  moreover have "(40::int) * 2 ^ K = 20 * 2 ^ (K + 1)" by simp
  ultimately have "40 * 2 ^ K < mant x * 2 ^ k \<longleftrightarrow> 20 < mant x * 2 ^ (k - (K + 1))"
    by (simp only: mult_less_cancel_right_pos zero_less_power zero_less_numeral)
  then show ?thesis by (simp add: f_less_def f_twenty_def Let_def e)
next
  case False
  then have e: "min 0 (expo x) = expo x" "nat (- expo x) = K + 1 - k" using assms by simp_all
  have "(2::int) ^ (K + 1) = 2 ^ (K + 1 - k + k)" using False by simp
  then have "(2::int) ^ (K + 1) = 2 ^ (K + 1 - k) * 2 ^ k" by (simp only: power_add)
  then have "(40::int) * 2 ^ K = 20 * 2 ^ (K + 1 - k) * 2 ^ k" by simp
  then have "40 * 2 ^ K < mant x * 2 ^ k \<longleftrightarrow> 20 * 2 ^ (K + 1 - k) < mant x"
    by (simp only: mult_less_cancel_right_pos zero_less_power zero_less_numeral)
  then show ?thesis by (simp add: f_less_def f_twenty_def Let_def e)
qed


lemma round_to_53_shift:
  assumes "0 < m"
  shows "nat (bitlen m - 53) = 0 \<or> 2 ^ nat (bitlen m - 53) * 2 ^ 52 \<le> m"
proof (cases "bitlen m \<le> 53")
  case True
  then show ?thesis by simp
next
  case False
  then have "nat (bitlen m - 1) = nat (bitlen m - 53) + 52" by simp
  with bitlen_bounds [OF assms] have "(2::int) ^ (nat (bitlen m - 53) + 52) \<le> m" by simp
  then have "(2::int) ^ nat (bitlen m - 53) * 2 ^ 52 \<le> m" by (simp only: power_add)
  then show ?thesis by (rule disjI2)
qed

lemma round_to_53_nonpos: "m \<le> 0 \<Longrightarrow> mant (round_to_53 m e) \<le> 0"
  by (auto simp: round_to_53_def Let_def mult_le_0_iff sgn_if pos_imp_zdiv_nonneg_iff)

lemma bitlen_million: "bitlen 1000000 = 20"
  by (simp add: bitlen_le_iff_power bitlen_ge_iff_power order_antisym)

lemma int_truediv_million:
  assumes "0 < a"
  shows "int_truediv a 1000000 =
           Inr (round_to_53
                 (2 * (a * 2 ^ nat (max 0 (75 - bitlen a)) div 1000000)
                  + (if a * 2 ^ nat (max 0 (75 - bitlen a)) mod 1000000 = 0 then 0 else 1))
                 (- int (nat (max 0 (75 - bitlen a))) - 1))"
  using assms by (simp add: int_truediv_def f_div_def Let_def bitlen_million)

lemma int_truediv_nonpos:
  assumes "a \<le> 0" and "int_truediv a 1000000 = Inr x"
  shows "mant x \<le> 0"
proof -
  have "sgn a * (2 * (\<bar>a\<bar> * 2 ^ k div 1000000) + s) \<le> 0" if "0 \<le> s" for k and s :: int
    using assms(1) that by (simp add: mult_le_0_iff sgn_if pos_imp_zdiv_nonneg_iff)
  then show ?thesis
    using assms(2) by (auto simp: int_truediv_def f_div_def Let_def intro!: round_to_53_nonpos)
qed

lemma gate_above:
  fixes a :: int
  assumes a: "20000000 < a"
  defines "K \<equiv> nat (max 0 (75 - bitlen a))"
  defines "M \<equiv> 2 * (a * 2 ^ K div 1000000) + (if a * 2 ^ K mod 1000000 = 0 then 0 else 1)"
  shows "40 * 2 ^ K < mant (round_to_53 M e) * 2 ^ nat (bitlen M - 53)"
proof -
  define k where "k = nat (bitlen M - 53)"
  define P :: int where "P = 2 ^ K"
  define Q :: int where "Q = 2 ^ k"
  define q where "q = a * P div 1000000"
  have P: "1 \<le> P" by (simp add: P_def)
  have Q: "1 \<le> Q" by (simp add: Q_def)
  have M: "2 * q \<le> M" "M \<le> 2 * q + 1" by (simp_all add: M_def q_def P_def)
  have low: "M - Q \<ge> 40 * P"
  proof (cases "a < 2 ^ 40")
    case True
    then have "bitlen a \<le> 40" by (simp add: bitlen_le_iff_power)
    then have K: "35 \<le> K" "int K = 75 - bitlen a" by (simp_all add: K_def)
    have "(2::int) ^ 35 \<le> 2 ^ K" using K(1) by (rule power_increasing) simp
    then have P35: "34359738368 \<le> P" by (simp add: P_def)
    have "(20000000 + 1) * P \<le> a * P" using a P by (intro mult_right_mono) simp_all
    then have "(20 * P) * 1000000 + P \<le> a * P" by (simp add: algebra_simps)
    then have "((20 * P) * 1000000 + P) div 1000000 \<le> q"
      unfolding q_def by (rule zdiv_mono1) simp
    then have "20 * P + P div 1000000 \<le> q" by simp
    moreover have "34359738368 div 1000000 \<le> P div 1000000"
      using P35 by (rule zdiv_mono1) simp
    ultimately have q: "20 * P + 34359 \<le> q" by simp
    have "0 < a" using a by simp
    from bitlen_bounds [OF this] have "a < 2 ^ nat (bitlen a)" by simp
    then have "a * P < 2 ^ nat (bitlen a) * 2 ^ K" by (simp add: P_def)
    also have "\<dots> = 2 ^ (nat (bitlen a) + K)" by (simp only: power_add)
    also have "nat (bitlen a) + K = 75" using K(2) bitlen_nonneg [of a] by simp
    finally have "a * P < 2 ^ 75" .
    then have "a * P div 1000000 \<le> 2 ^ 75 div 1000000" by (intro zdiv_mono1) simp_all
    then have "q \<le> 37778931862957161" by (simp add: q_def)
    then have M57: "M < 2 ^ 57" using M(2) by simp
    have "0 < M" using M(1) q P by simp
    from round_to_53_shift [OF this] have "Q = 1 \<or> Q * 2 ^ 52 \<le> M"
      by (auto simp: Q_def k_def)
    then have "Q < 32" using M57 by auto
    then show ?thesis using M(1) q by simp
  next
    case False
    then have "2 ^ 40 * P \<le> a * P" using P by (intro mult_right_mono) simp_all
    then have "(2 ^ 20 * P) * 1000000 \<le> a * P" using P by simp
    then have "((2 ^ 20 * P) * 1000000) div 1000000 \<le> q"
      unfolding q_def by (rule zdiv_mono1) simp
    then have q: "2 ^ 20 * P \<le> q" by simp
    then have "0 < M" using M(1) P by simp
    from round_to_53_shift [OF this] have "Q = 1 \<or> Q * 2 ^ 52 \<le> M"
      by (auto simp: Q_def k_def)
    then show ?thesis using M(1) q P by auto
  qed
  have M0: "0 < M" using low P Q by simp
  have "M = M div Q * Q + M mod Q" by simp
  moreover have "M mod Q < Q" using Q by (simp add: Q_def)
  ultimately have "M - Q < M div Q * Q" by linarith
  also have "\<dots> \<le> mant (round_to_53 M e) * Q"
    using round_to_53_bounds(2) [OF M0, of e] Q
    by (intro mult_right_mono) (simp_all add: Q_def k_def)
  finally show ?thesis using low by (simp add: P_def Q_def k_def)
qed

lemma gate_below:
  fixes a :: int
  assumes a: "0 < a" "a \<le> 20000000"
  defines "K \<equiv> nat (max 0 (75 - bitlen a))"
  defines "M \<equiv> 2 * (a * 2 ^ K div 1000000) + (if a * 2 ^ K mod 1000000 = 0 then 0 else 1)"
  shows "mant (round_to_53 M e) * 2 ^ nat (bitlen M - 53) \<le> 40 * 2 ^ K"
proof -
  define k where "k = nat (bitlen M - 53)"
  define P :: int where "P = 2 ^ K"
  define Q :: int where "Q = 2 ^ k"
  define q where "q = a * P div 1000000"
  have P: "1 \<le> P" by (simp add: P_def)
  have Q: "1 \<le> Q" by (simp add: Q_def)
  have "a < 2 ^ 25" using a by simp
  then have "bitlen a \<le> 25" by (simp add: bitlen_le_iff_power)
  then have K: "50 \<le> K" by (simp add: K_def)
  have "(2::int) ^ 50 \<le> 2 ^ K" using K by (rule power_increasing) simp
  then have P50: "2 ^ 50 \<le> P" by (simp add: P_def)
  have "(2::int) ^ 50 * 1 \<le> P * a" using P50 a by (intro mult_mono) simp_all
  then have "2 ^ 50 \<le> a * P" by (metis mult.commute mult.right_neutral)
  then have "2 ^ 50 div 1000000 \<le> q"
    unfolding q_def by (rule zdiv_mono1) simp
  then have q1: "1 \<le> q" by simp
  have M: "M = 2 * q + (if a * P mod 1000000 = 0 then 0 else 1)"
    by (simp add: M_def q_def P_def)
  have M0: "0 < M" using M q1 by (simp split: if_splits)
  have top: "M \<le> 40 * P"
  proof (cases "a = 20000000")
    case True
    then show ?thesis by (simp add: M q_def)
  next
    case False
    then have "a + 1 \<le> 20000000" using a by simp
    then have "(a + 1) * P \<le> 20000000 * P" using P by (intro mult_right_mono) simp_all
    then have "a * P < (20 * P) * 1000000" using P by (simp add: algebra_simps)
    then have "q < 20 * P" unfolding q_def by (simp add: div_less_iff_less_mult)
    then show ?thesis by (simp add: M split: if_splits)
  qed
  have kK: "k \<le> K"
  proof -
    from round_to_53_shift [OF M0] have "k = 0 \<or> 2 ^ k * 2 ^ 52 \<le> M"
      by (simp add: k_def)
    then show ?thesis
    proof
      assume "k = 0"
      then show ?thesis by simp
    next
      assume "2 ^ k * 2 ^ 52 \<le> M"
      then have "(2::int) ^ (k + 52) \<le> 40 * 2 ^ K" using top by (simp add: power_add P_def)
      also have "\<dots> < 2 ^ 6 * 2 ^ K" by simp
      also have "\<dots> = 2 ^ (K + 6)" by (simp add: power_add)
      finally have "(2::int) ^ (k + 52) < 2 ^ (K + 6)" .
      then have "k + 52 < K + 6" by (rule power_less_imp_less_exp [rotated]) simp
      then show ?thesis by simp
    qed
  qed
  then have "(2::int) ^ K = 2 ^ (K - k) * 2 ^ k" by (simp add: power_add [symmetric])
  then have PQ: "P = 2 ^ (K - k) * Q" by (simp add: P_def Q_def)
  define T :: int where "T = 40 * 2 ^ (K - k)"
  have T: "40 * P = T * Q" by (simp add: PQ T_def)
  have "mant (round_to_53 M e) \<le> T"
  proof (cases "M = T * Q")
    case True
    then have "M mod 2 ^ k = 0" "M div 2 ^ k = T" using Q by (simp_all add: Q_def)
    with round_to_53_bounds(4) [OF M0, of e] show ?thesis by (simp add: k_def)
  next
    case False
    then have "M < T * Q" using top T by simp
    have "M div Q < T"
    proof (rule ccontr)
      assume "\<not> M div Q < T"
      then have "T * Q \<le> M div Q * Q" using Q by (intro mult_right_mono) simp_all
      also have "\<dots> = M - M mod Q" by (simp add: algebra_simps minus_mod_eq_mult_div)
      also have "\<dots> \<le> M" using Q by simp
      finally show False using \<open>M < T * Q\<close> by simp
    qed
    with round_to_53_bounds(3) [OF M0, of e] show ?thesis by (simp add: k_def Q_def)
  qed
  then have "mant (round_to_53 M e) * Q \<le> T * Q" using Q by (intro mult_right_mono) simp_all
  then show ?thesis using T by (simp add: P_def Q_def k_def)
qed

lemma megapixel_gate:
  assumes "int_truediv a 1000000 = Inr x"
  shows "f_less f_twenty x \<longleftrightarrow> 20000000 < a"
proof (cases "0 < a")
  case False
  then have "mant x \<le> 0" using assms by (intro int_truediv_nonpos [of a]) simp_all
  with f_less_twenty_pos [of x] False show ?thesis by auto
next
  case True
  define K where "K = nat (max 0 (75 - bitlen a))"
  define M where "M = 2 * (a * 2 ^ K div 1000000) + (if a * 2 ^ K mod 1000000 = 0 then 0 else 1)"
  define k where "k = nat (bitlen M - 53)"
  have x: "x = round_to_53 M (- int K - 1)"
    using assms int_truediv_million [OF True] by (simp add: K_def M_def)
  have M0: "0 < M"
  proof -
    define n where "n = a * 2 ^ K"
    define q where "q = n div 1000000"
    define r where "r = n mod 1000000"
    have "0 < n" using True by (simp add: n_def)
    moreover have "n = 1000000 * q + r" by (simp add: q_def r_def)
    moreover have "0 \<le> q" using \<open>0 < n\<close> by (simp add: q_def pos_imp_zdiv_nonneg_iff)
    ultimately have "0 < 2 * q + (if r = 0 then 0 else 1)" by (cases "r = 0") simp_all
    then show ?thesis by (simp add: M_def n_def q_def r_def)
  qed
  have "expo x = int k - int K - 1"
    using round_to_53_bounds(1) [OF M0, of "- int K - 1"] by (simp add: x k_def)
  from f_less_twenty_iff [OF this]
  have iff: "f_less f_twenty x \<longleftrightarrow> 40 * 2 ^ K < mant x * 2 ^ k" .
  show ?thesis
  proof (cases "20000000 < a")
    case True
    have "40 * 2 ^ K < mant (round_to_53 M (- int K - 1)) * 2 ^ k"
      using gate_above [OF True, of "- int K - 1"] unfolding K_def M_def k_def .
    then have "40 * 2 ^ K < mant x * 2 ^ k" by (simp only: x)
    with True iff show ?thesis by simp
  next
    case False
    then have "a \<le> 20000000" by simp
    have "mant (round_to_53 M (- int K - 1)) * 2 ^ k \<le> 40 * 2 ^ K"
      using gate_below [OF \<open>0 < a\<close> \<open>a \<le> 20000000\<close>, of "- int K - 1"]
      unfolding K_def M_def k_def .
    then have "mant x * 2 ^ k \<le> 40 * 2 ^ K" by (simp only: x)
    with False iff show ?thesis by simp
  qed
qed

lemma sample_normalize: "normalize_image (sample_env f) sample_image = sample_image"
  by (simp add: normalize_image_def correct_image_orientation_def orientation_try_def
      sample_image_def)

lemma sample_megapixels:
  "int_truediv 80000000 1000000 = Inr \<lparr>mant = 5629499534213120, expo = - 46\<rparr>"
  "f_less f_twenty \<lparr>mant = 5629499534213120, expo = - 46\<rparr>"
  "f_div f_twenty \<lparr>mant = 5629499534213120, expo = - 46\<rparr>
     = Inr \<lparr>mant = 4503599627370496, expo = - 54\<rparr>"
  "f_sqrt \<lparr>mant = 4503599627370496, expo = - 54\<rparr> = \<lparr>mant = 4503599627370496, expo = - 53\<rparr>"
  "scaled 10000 \<lparr>mant = 4503599627370496, expo = - 53\<rparr> = 5000"
  "scaled 8000 \<lparr>mant = 4503599627370496, expo = - 53\<rparr> = 4000"
  by code_simp+

lemma sample_pre_downscale:
  "pre_downscale (sample_env f) 31457281 sample_image
     = Inr (sample_image\<lparr>width := 5000, height := 4000\<rparr>)"
proof -
  have "float_pow_half (sample_env f) = f_sqrt" "px_lanczos (sample_env f) = (\<lambda>w h p. p)"
    by (simp_all add: sample_env_def)
  then show ?thesis
    by (simp add: pre_downscale_def sample_image_def resize_def MAX_FILE_SIZE_def
        sample_megapixels)
qed

text \<open>
  C10. For an input that opens as an image, the raster that enters the search loop is
  the result of the pre-downscale step applied once to the normalized image: the loop
  starts from it at quality 95 and resize factor 1.0, and every candidate is an encode
  of it. The step never raises. When the original file is larger than
  \<open>MAX_FILE_SIZE\<close> and the normalized image has more than 20000000 pixels, it resizes
  the image to the truncated products of its width and height with the factor
  \<open>(20 / current_megapixels) ** 0.5\<close>; when either condition fails the normalized
  image enters the loop as it is.
\<close>

theorem pre_downscale_rule:
  assumes "image_open E input = Inr img"
  shows "\<exists>raster. pre_downscale E (length input) (normalize_image E img) = Inr raster
       \<and> prepare_raster E input = Inr raster
       \<and> compress_trace E input = search_loop E raster 95 f_one []
       \<and> compress_trace E input
           = Some (fst (run_schedule E raster schedule), snd (run_schedule E raster schedule))
       \<and> (if MAX_FILE_SIZE < length input
             \<and> 20000000 < width (normalize_image E img) * height (normalize_image E img)
           then \<exists>mp ratio.
                  int_truediv (width (normalize_image E img) * height (normalize_image E img))
                    1000000 = Inr mp
                \<and> f_less f_twenty mp
                \<and> f_div f_twenty mp = Inr ratio
                \<and> raster =
                    resize E
                      (f_trunc (f_mul (f_of_int (width (normalize_image E img)))
                                      (float_pow_half E ratio)),
                       f_trunc (f_mul (f_of_int (height (normalize_image E img)))
                                      (float_pow_half E ratio)))
                      (normalize_image E img)
           else raster = normalize_image E img)"
proof -
  define n where "n = normalize_image E img"
  obtain mp where mp: "int_truediv (width n * height n) 1000000 = Inr mp"
    using int_truediv_ok [of 1000000] by auto
  have gate: "f_less f_twenty mp \<longleftrightarrow> 20000000 < width n * height n"
    using mp by (rule megapixel_gate)
  have link: "prepare_raster E input = pre_downscale E (length input) n"
    using assms by (simp add: prepare_raster_def n_def)
  have loop: "compress_trace E input = search_loop E raster 95 f_one []
       \<and> compress_trace E input
           = Some (fst (run_schedule E raster schedule), snd (run_schedule E raster schedule))"
    if "pre_downscale E (length input) n = Inr raster" for raster
    using that link by (simp add: compress_trace_def search_loop_schedule)
  show ?thesis
  proof (cases "MAX_FILE_SIZE < length input \<and> 20000000 < width n * height n")
    case True
    then have less: "f_less f_twenty mp" using gate by simp
    then have "mant mp \<noteq> 0" using f_less_twenty_pos [of mp] by simp
    then obtain ratio where r: "f_div f_twenty mp = Inr ratio"
      by (auto simp: f_div_def Let_def)
    define raster where "raster = resize E
        (f_trunc (f_mul (f_of_int (width n)) (float_pow_half E ratio)),
         f_trunc (f_mul (f_of_int (height n)) (float_pow_half E ratio))) n"
    have p: "pre_downscale E (length input) n = Inr raster"
      using True mp less r by (simp add: pre_downscale_def scaled_def Let_def raster_def)
    from loop [OF p] p link True mp less r show ?thesis
      unfolding n_def [symmetric] by (intro exI [of _ raster]) (auto simp: raster_def)
  next
    case False
    then have p: "pre_downscale E (length input) n = Inr n"
      using mp gate by (auto simp: pre_downscale_def)
    from loop [OF p] p link False show ?thesis
      unfolding n_def [symmetric] by (intro exI [of _ n]) auto
  qed
qed

text \<open>
  A file of \<open>MAX_FILE_SIZE + 1\<close> bytes that opens as the 10000 by 8000 sample image: 80
  megapixels, the factor is 0.5 and the loop starts from a 5000 by 4000 raster.
\<close>

theorem pre_downscale_rule_witness:
  "image_open (sample_env tiny) (replicate 31457281 0) = Inr sample_image
   \<and> MAX_FILE_SIZE < length (replicate 31457281 (0::nat))
   \<and> 20000000 < width sample_image * height sample_image
   \<and> prepare_raster (sample_env tiny) (replicate 31457281 0)
       = Inr (sample_image\<lparr>width := 5000, height := 4000\<rparr>)
   \<and> compress_trace (sample_env tiny) (replicate 31457281 0)
       = search_loop (sample_env tiny) (sample_image\<lparr>width := 5000, height := 4000\<rparr>) 95 f_one []"
proof -
  have o: "image_open (sample_env tiny) (replicate 31457281 0) = Inr sample_image"
    by (simp add: sample_env_def)
  from pre_downscale_rule [OF o] obtain raster where
    r: "pre_downscale (sample_env tiny) (length (replicate 31457281 (0::nat)))
          (normalize_image (sample_env tiny) sample_image) = Inr raster"
      "prepare_raster (sample_env tiny) (replicate 31457281 0) = Inr raster"
      "compress_trace (sample_env tiny) (replicate 31457281 0)
         = search_loop (sample_env tiny) raster 95 f_one []"
    by blast
  from r(1) have "raster = sample_image\<lparr>width := 5000, height := 4000\<rparr>"
    by (simp add: sample_normalize sample_pre_downscale)
  with r(2,3) o show ?thesis
    by (simp add: MAX_FILE_SIZE_def sample_image_def)
qed

section \<open>Properties of the pipeline\<close>




lemma upload_world:
  "upload_from_filename w name data = (r, w2) \<Longrightarrow>
     tracker_text w2 = tracker_text w \<and> failing w2 = failing w
     \<and> prefix (calls w) (calls w2) \<and> calls w2 = calls w @ [Upload name]
     \<and> (case r of Inl e \<Rightarrow> output_objects w2 = output_objects w
                 | Inr u \<Rightarrow> output_objects w2 = (name, data) # output_objects w)"
  by (auto simp: upload_from_filename_def Let_def split: if_splits)

lemma load_tracker_world:
  "load_tracker w = (r, w3) \<Longrightarrow>
     tracker_text w3 = tracker_text w \<and> failing w3 = failing w
     \<and> output_objects w3 = output_objects w \<and> prefix (calls w) (calls w3)
     \<and> calls w3 = calls w @ [TrackerRead]
     \<and> (case r of Inl e \<Rightarrow> failing w TrackerRead
                 | Inr existing \<Rightarrow>
                     existing = (case tracker_text w of None \<Rightarrow> {}
                                 | Some content \<Rightarrow> set (splitlines (strip content))))"
  by (auto simp: load_tracker_def Let_def split: if_splits option.splits)

lemma update_tracker_world:
  "update_tracker new existing w = (r, w4) \<Longrightarrow>
     failing w4 = failing w \<and> output_objects w4 = output_objects w
     \<and> prefix (calls w) (calls w4) \<and> calls w4 = calls w @ [TrackerWrite]
     \<and> (case r of Inl e \<Rightarrow> failing w TrackerWrite \<and> tracker_text w4 = tracker_text w
                 | Inr u \<Rightarrow> tracker_text w4 =
                     Some (join [CHR 0x0A] (sorted_list_of_set (existing \<union> new))))"
  by (auto simp: update_tracker_def Let_def split: if_splits)

text \<open>The outcomes of the worker, one per place where it can stop.\<close>

lemma process_single_cases:
  assumes "process_single E w pre f parts = Some (r, w')"
  obtains
    (download_failed) e where "download_to_filename w f = (Inl e, w')" "r = Error e"
  | (image_failed) d e where "download_to_filename w f = (Inr d, w')"
      "make_image E (lower (splitext_ext (basename f))) d = Some (Inl e)" "r = Error e"
  | (skipped) d where "download_to_filename w f = (Inr d, w')"
      "make_image E (lower (splitext_ext (basename f))) d = Some (Inr None)"
      "r = Skipped (basename f)"
  | (split_failed) d img e where "download_to_filename w f = (Inr d, w')"
      "make_image E (lower (splitext_ext (basename f))) d = Some (Inr (Some img))"
      "split_image_file E img parts = Inl e" "r = Error e"
  | (assemble_failed) d img tiles e where "download_to_filename w f = (Inr d, w')"
      "make_image E (lower (splitext_ext (basename f))) d = Some (Inr (Some img))"
      "split_image_file E img parts = Inr tiles" "tiles_to_pdf E tiles = Inl e" "r = Error e"
  | (upload_failed) d w1 img tiles pdf e where "download_to_filename w f = (Inr d, w1)"
      "make_image E (lower (splitext_ext (basename f))) d = Some (Inr (Some img))"
      "split_image_file E img parts = Inr tiles" "tiles_to_pdf E tiles = Inr pdf"
      "upload_from_filename w1 (output_blob_path pre (basename f)) pdf = (Inl e, w')"
      "r = Error e"
  | (read_failed) d w1 img tiles pdf u w2 e where "download_to_filename w f = (Inr d, w1)"
      "make_image E (lower (splitext_ext (basename f))) d = Some (Inr (Some img))"
      "split_image_file E img parts = Inr tiles" "tiles_to_pdf E tiles = Inr pdf"
      "upload_from_filename w1 (output_blob_path pre (basename f)) pdf = (Inr u, w2)"
      "load_tracker w2 = (Inl e, w')" "r = Error e"
  | (write_failed) d w1 img tiles pdf u w2 existing w3 e where
      "download_to_filename w f = (Inr d, w1)"
      "make_image E (lower (splitext_ext (basename f))) d = Some (Inr (Some img))"
      "split_image_file E img parts = Inr tiles" "tiles_to_pdf E tiles = Inr pdf"
      "upload_from_filename w1 (output_blob_path pre (basename f)) pdf = (Inr u, w2)"
      "load_tracker w2 = (Inr existing, w3)"
      "update_tracker {f} existing w3 = (Inl e, w')" "r = Error e"
  | (finished) d w1 img tiles pdf u w2 existing w3 u' where
      "download_to_filename w f = (Inr d, w1)"
      "make_image E (lower (splitext_ext (basename f))) d = Some (Inr (Some img))"
      "split_image_file E img parts = Inr tiles" "tiles_to_pdf E tiles = Inr pdf"
      "upload_from_filename w1 (output_blob_path pre (basename f)) pdf = (Inr u, w2)"
      "load_tracker w2 = (Inr existing, w3)"
      "update_tracker {f} existing w3 = (Inr u', w')" "r = Procesado f"
  using assms unfolding process_single_def Let_def
  by (auto split: prod.splits sum.splits option.splits)

lemma sample_tile_pages: "tile_pages (sample_env f) tiles = Inr (map concat tiles)"
  by (induction tiles) (simp_all add: sample_env_def)

lemma sample_tiles_to_pdf: "tiles_to_pdf (sample_env f) tiles = Inr (concat (map concat tiles))"
  by (simp add: tiles_to_pdf_def sample_tile_pages) (simp add: sample_env_def)

lemma sample_split:
  "split_image_file (sample_env f) img 2 = Inr [[[1, 2]], [[3, 4], [5, 6]]]"
  by (simp add: split_image_file_def sample_env_def split_image_horizontally_def
      tile_bounds_def py_slice_def clip_index_def upto.simps Let_def)

lemma name_a_pdf:
  "lower (splitext_ext (basename ''maps/a.pdf'')) = ''.pdf''"
  "output_blob_path ''out'' (basename ''maps/a.pdf'') = ''out/a_tiles.pdf''"
  by code_simp+

text \<open>
  A PDF is not passed through the compressor: its first page is saved as a JPEG and
  handed to the tiler as it is. Where that JPEG has \<open>MAX_FILE_SIZE + 1\<close> bytes, the
  image for the tiler has that size and the file is processed to the end.
\<close>

theorem pdf_skips_compressor_counterexample:
  "map_option (map_sum id (map_option length))
     (make_image (sample_env always_over) ''.pdf'' [37, 80, 68, 70])
     = Some (Inr (Some (MAX_FILE_SIZE + 1)))
   \<and> map_option fst
       (process_single (sample_env always_over) (sample_world None (\<lambda>c. False))
          ''out'' ''maps/a.pdf'' 2)
     = Some (Procesado ''maps/a.pdf'')"
proof -
  have 1: "make_image (sample_env always_over) ''.pdf'' [37, 80, 68, 70]
             = Some (Inr (Some (replicate (MAX_FILE_SIZE + 1) 0)))"
    by (simp add: make_image_def extract_first_page_from_pdf_def sample_env_def always_over_def)
  have 3: "download_to_filename (sample_world None (\<lambda>c. False)) ''maps/a.pdf''
             = (Inr [37, 80, 68, 70],
                (sample_world None (\<lambda>c. False))\<lparr>calls := [Download ''maps/a.pdf'']\<rparr>)"
    by (simp add: download_to_filename_def sample_world_def)
  have "map_option fst
       (process_single (sample_env always_over) (sample_world None (\<lambda>c. False))
          ''out'' ''maps/a.pdf'' 2)
     = Some (Procesado ''maps/a.pdf'')"
    unfolding process_single_def Let_def name_a_pdf 3
    by (simp add: 1 sample_split sample_tiles_to_pdf upload_from_filename_def
        load_tracker_def update_tracker_def sample_world_def Let_def)
  with 1 show ?thesis by simp
qed

lemma compress_success_fits:
  assumes "compress_image_adaptively E d = Some (Inr img)"
  shows "length img \<le> MAX_FILE_SIZE"
proof -
  from assms obtain tr where tr: "compress_trace E d = Some (tr, Inr img)"
    by (auto simp: compress_image_adaptively_def)
  from compress_trace_shape [of E d] tr
  obtain raster k where k: "\<not> too_big (candidate E raster (schedule ! k))"
      "compress_trace E d = Some (take (Suc k) schedule, candidate E raster (schedule ! k))"
    by (auto split: if_splits)
  from k(2) tr have "candidate E raster (schedule ! k) = Inr img" by simp
  with k(1) show ?thesis by (simp add: too_big_def)
qed

text \<open>
  C4 (amended). For a file whose extension is one of the raster extensions, a run that
  ends with the file processed went download, compressor, tiler, assembler, upload: the
  image split is the compressor's output, of at most \<open>MAX_FILE_SIZE\<close> bytes, and the
  assembled tiles are what is stored under the output name. For the extension
  \<open>.pdf\<close> the image for the tiler is the first page saved as a JPEG, with no
  compressor and no bound on its size.
\<close>

theorem raster_files_pass_the_compressor:
  assumes "lower (splitext_ext (basename f)) \<in> set raster_extensions"
    and "process_single E w pre f parts = Some (Procesado f', w')"
  shows "\<exists>d w1 img tiles pdf.
           download_to_filename w f = (Inr d, w1)
         \<and> compress_image_adaptively E d = Some (Inr img)
         \<and> length img \<le> MAX_FILE_SIZE
         \<and> split_image_file E img parts = Inr tiles
         \<and> tiles_to_pdf E tiles = Inr pdf
         \<and> map_of (output_objects w') (output_blob_path pre (basename f)) = Some pdf
         \<and> make_image E ''.pdf'' d = Some (map_sum id Some (extract_first_page_from_pdf E d))"
  using assms(2)
proof (cases rule: process_single_cases)
  case (finished d w1 img tiles pdf u w2 existing w3 u')
  have ext: "lower (splitext_ext (basename f)) \<noteq> ''.pdf''"
    using assms(1) by (auto simp: raster_extensions_def)
  from finished(2) ext assms(1) obtain z where "compress_image_adaptively E d = Some z"
      "map_sum id Some z = Inr (Some img)"
    by (auto simp: make_image_def split: if_splits)
  then have c: "compress_image_adaptively E d = Some (Inr img)"
    by (cases z) auto
  then have len: "length img \<le> MAX_FILE_SIZE" by (rule compress_success_fits)
  from upload_world [OF finished(5)] load_tracker_world [OF finished(6)] update_tracker_world [OF finished(7)]
  have "output_objects w' = (output_blob_path pre (basename f), pdf) # output_objects w1"
    by simp
  then have "map_of (output_objects w') (output_blob_path pre (basename f)) = Some pdf"
    by simp
  with finished(1,3,4) c len show ?thesis
    by (auto simp: make_image_def)
qed auto

lemma name_b_png:
  "lower (splitext_ext (basename ''maps/b.png'')) = ''.png''"
  "output_blob_path ''out'' (basename ''maps/b.png'') = ''out/b_tiles.pdf''"
  by code_simp+

lemma sample_prepare_small:
  assumes "length d \<le> 31457280"
  shows "prepare_raster (sample_env f) d = Inr sample_image"
proof -
  have "normalize_image (sample_env f) sample_image = sample_image"
    by (simp add: normalize_image_def correct_image_orientation_def orientation_try_def
        sample_image_def)
  moreover have "image_open (sample_env f) d = Inr sample_image"
    by (simp add: sample_env_def)
  ultimately show ?thesis
    using assms by (simp add: prepare_raster_def pre_downscale_small MAX_FILE_SIZE_def)
qed

lemma sample_compress_tiny:
  assumes "length d \<le> 31457280"
  shows "compress_image_adaptively (sample_env tiny) d = Some (Inr [0, 0, 0])"
  unfolding compress_image_adaptively_def
    compress_trace_run [OF sample_prepare_small [OF assms]]
  by (simp add: schedule_eq too_big_def sample_candidate tiny_def MAX_FILE_SIZE_def
      numeral_3_eq_3)

lemma sample_compress_over:
  assumes "length d \<le> 31457280"
  shows "compress_image_adaptively (sample_env always_over) d = Some (Inl budget_unreachable)"
  unfolding compress_image_adaptively_def
    compress_trace_run [OF sample_prepare_small [OF assms]]
  by (simp add: schedule_eq too_big_def sample_candidate always_over_def)

lemma sample_download:
  "download_to_filename (sample_world tracker bad) ''maps/b.png'' =
     (if bad (Download ''maps/b.png'') then Inl transfer_failure else Inr [137, 80, 78, 71],
      (sample_world tracker bad)\<lparr>calls := [Download ''maps/b.png'']\<rparr>)"
  "download_to_filename (sample_world tracker bad) ''maps/a.pdf'' =
     (if bad (Download ''maps/a.pdf'') then Inl transfer_failure else Inr [37, 80, 68, 70],
      (sample_world tracker bad)\<lparr>calls := [Download ''maps/a.pdf'']\<rparr>)"
  by (simp_all add: download_to_filename_def sample_world_def)

lemma sample_make_image_png:
  "make_image (sample_env tiny) ''.png'' [137, 80, 78, 71] = Some (Inr (Some [0, 0, 0]))"
  "make_image (sample_env always_over) ''.png'' [137, 80, 78, 71] = Some (Inl budget_unreachable)"
  by (simp_all add: make_image_def raster_extensions_def sample_compress_tiny sample_compress_over)

lemma sample_make_image_pdf:
  "make_image (sample_env tiny) ''.pdf'' d = Some (Inr (Some [0, 0, 0]))"
  by (simp add: make_image_def extract_first_page_from_pdf_def sample_env_def tiny_def
      numeral_3_eq_3)

lemma sample_tiny_png_run:
  "map_option (\<lambda>(r, w). (r, output_objects w, calls w))
     (process_single (sample_env tiny) (sample_world None (\<lambda>c. False)) ''out'' ''maps/b.png'' 2)
   = Some (Procesado ''maps/b.png'', [(''out/b_tiles.pdf'', [1, 2, 3, 4, 5, 6])],
           [Download ''maps/b.png'', Upload ''out/b_tiles.pdf'', TrackerRead, TrackerWrite])"
  unfolding process_single_def Let_def name_b_png sample_download
  by (simp add: sample_make_image_png sample_split sample_tiles_to_pdf upload_from_filename_def
      load_tracker_def update_tracker_def sample_world_def Let_def)












text \<open>
  The raster file of the sample world, processed in the sample environment.
\<close>

theorem raster_files_pass_the_compressor_witness:
  "lower (splitext_ext (basename ''maps/b.png'')) \<in> set raster_extensions
   \<and> map_option fst
       (process_single (sample_env tiny) (sample_world None (\<lambda>c. False)) ''out'' ''maps/b.png'' 2)
     = Some (Procesado ''maps/b.png'')
   \<and> compress_image_adaptively (sample_env tiny) [137, 80, 78, 71] = Some (Inr [0, 0, 0])
   \<and> length [0, 0, 0 :: nat] \<le> MAX_FILE_SIZE"
proof -
  have h1: "lower (splitext_ext (basename ''maps/b.png'')) \<in> set raster_extensions"
    by (simp add: name_b_png raster_extensions_def)
  from sample_tiny_png_run obtain w' where h2:
    "process_single (sample_env tiny) (sample_world None (\<lambda>c. False)) ''out'' ''maps/b.png'' 2
       = Some (Procesado ''maps/b.png'', w')"
    by (auto simp: map_option_case split: option.splits)
  from raster_files_pass_the_compressor [OF h1 h2]
  obtain d w1 img where d: "download_to_filename (sample_world None (\<lambda>c. False)) ''maps/b.png''
      = (Inr d, w1)" and c: "compress_image_adaptively (sample_env tiny) d = Some (Inr img)"
      and l: "length img \<le> MAX_FILE_SIZE"
    by blast
  from d have dd: "d = [137, 80, 78, 71]"
    by (simp add: sample_download)
  have "compress_image_adaptively (sample_env tiny) [137, 80, 78, 71] = Some (Inr [0, 0, 0])"
    by (simp add: sample_compress_tiny)
  with c dd l h1 h2 show ?thesis by simp
qed

end
